theory Spec2Isabelle
  imports Complex_Main "HOL-Library.Sublist" "HOL-Library.List_Lexorder" "HOL-Library.Char_ord"
begin

section \<open>Errors and JavaScript numbers\<close>

text \<open>
  Every \<^verbatim>\<open>throw\<close> of the source is a value of \<open>error\<close>:
  \<^item> \<open>LengthMismatch\<close>: the \<^verbatim>\<open>throw new Error(...)\<close> (hashes must have the same length) of
    \<^verbatim>\<open>calculateHashDistance\<close>;
  \<^item> \<open>NotLoaded\<close>: the \<^verbatim>\<open>throw new Error(...)\<close> (database not loaded) of \<^verbatim>\<open>addImage\<close>;
  \<^item> \<open>NullHandle\<close>: the \<^verbatim>\<open>TypeError\<close> of calling \<^verbatim>\<open>this.db.run\<close> or \<^verbatim>\<open>this.db.prepare\<close>
    while \<^verbatim>\<open>this.db\<close> is still \<^verbatim>\<open>null\<close>;
  \<^item> \<open>CallbackTypeError\<close>: the \<^verbatim>\<open>TypeError\<close> of reading \<^verbatim>\<open>this.images.length\<close> inside the
    \<^verbatim>\<open>function(err)\<close> callback of \<^verbatim>\<open>removeImage\<close>, where \<^verbatim>\<open>this\<close> is the statement;
  \<^item> \<open>NoChannel\<close>: the \<^verbatim>\<open>throw new Error(...)\<close> (channel id not given) of both scans;
  \<^item> \<open>UnknownMethod\<close>: the \<^verbatim>\<open>throw new Error(...)\<close> (unknown method) of \<^verbatim>\<open>scanChannel\<close>;
  \<^item> \<open>External\<close>: an exception raised by an external collaborator (network client, image
    decoder), with its message.
\<close>

datatype error =
    LengthMismatch
  | NotLoaded
  | NullHandle
  | CallbackTypeError
  | NoChannel
  | UnknownMethod string
  | External string

text \<open>
  A JavaScript number is an IEEE double: here a rational that a double can hold, or \<open>NaN\<close>.
  Every arithmetic operation of the source computes the exact result and rounds it to the
  nearest double, ties to the even significand; \<open>fl\<close> is that rounding. For a non-zero \<open>x\<close>,
  \<open>exponent \<bar>x\<bar>\<close> is the integer \<open>e\<close> with \<open>2\<^sup>e \<le> \<bar>x\<bar> < 2\<^sup>e\<^sup>+\<^sup>1\<close>, the doubles of that
  magnitude are the multiples of \<open>2\<^sup>e\<^sup>-\<^sup>5\<^sup>2\<close>, and \<open>round_even\<close> picks the nearest multiple.
  The bounded exponent of a double is not modelled: the numbers of this program are
  quotients, products and differences of string lengths and of the constants 4 and 100,
  far inside the range of normal doubles.

  \<open>0 / 0\<close> is \<open>NaN\<close>, as in JavaScript, and every comparison with \<open>NaN\<close> is false. A non-zero
  dividend over zero (\<open>Infinity\<close> or \<open>-Infinity\<close> in JavaScript) has no value in this type;
  the lemma \<open>hamming_le_length\<close> below shows that the program never divides a non-zero
  number by zero, because its only divisors are string lengths, and the dividend over an
  empty string is \<open>0\<close> or \<open>NaN\<close>.
\<close>

fun bit_length :: "nat \<Rightarrow> nat" where
  "bit_length n = (if n = 0 then 0 else Suc (bit_length (n div 2)))"

declare bit_length.simps [simp del]

definition exponent :: "rat \<Rightarrow> int" where
  "exponent x =
     (if 1 \<le> x then int (bit_length (nat \<lfloor>x\<rfloor>)) - 1
      else - int (bit_length (nat (\<lceil>1 / x\<rceil> - 1))))"

definition round_even :: "rat \<Rightarrow> int" where
  "round_even x =
     (let f = \<lfloor>x\<rfloor>; r = x - of_int f
      in if r < 1 / 2 then f
         else if 1 / 2 < r then f + 1
         else if even f then f else f + 1)"

definition fl :: "rat \<Rightarrow> rat" where
  "fl x =
     (if x = 0 then 0
      else (let u = exponent \<bar>x\<bar> - 52;
                m = round_even (\<bar>x\<bar> / 2 powi u)
            in sgn x * of_int m * 2 powi u))"

datatype jsnum = NaN | Fin rat

fun js_div :: "jsnum \<Rightarrow> jsnum \<Rightarrow> jsnum" where
  "js_div (Fin a) (Fin b) = (if b = 0 then NaN else Fin (fl (a / b)))"
| "js_div _ _ = NaN"

fun js_mul :: "jsnum \<Rightarrow> jsnum \<Rightarrow> jsnum" where
  "js_mul (Fin a) (Fin b) = Fin (fl (a * b))"
| "js_mul _ _ = NaN"

fun js_sub :: "jsnum \<Rightarrow> jsnum \<Rightarrow> jsnum" where
  "js_sub (Fin a) (Fin b) = Fin (fl (a - b))"
| "js_sub _ _ = NaN"

fun js_le :: "jsnum \<Rightarrow> jsnum \<Rightarrow> bool" where
  "js_le (Fin a) (Fin b) = (a \<le> b)"
| "js_le _ _ = False"

fun js_ge :: "jsnum \<Rightarrow> jsnum \<Rightarrow> bool" where
  "js_ge (Fin a) (Fin b) = (a \<ge> b)"
| "js_ge _ _ = False"

section \<open>Signature engine (imageHasher.js)\<close>

text \<open>
  The counting loop of \<^verbatim>\<open>calculateHashDistance\<close>:
  \<^verbatim>\<open>for (let i = 0; i < hash1.length; i++) { if (hash1[i] !== hash2[i]) distance++; }\<close>
  It is only reached when both strings have the same length, so both reads are in range.
\<close>

definition hamming :: "string \<Rightarrow> string \<Rightarrow> nat" where
  "hamming hash1 hash2 =
     fold (\<lambda>i distance. if hash1 ! i \<noteq> hash2 ! i then distance + 1 else distance)
       [0..<length hash1] 0"

definition calculateHashDistance :: "string \<Rightarrow> string \<Rightarrow> error + jsnum" where
  "calculateHashDistance hash1 hash2 =
     (if length hash1 \<noteq> length hash2 then Inl LengthMismatch
      else Inr (js_mul (js_div (Fin (of_nat (hamming hash1 hash2)))
                               (Fin (of_nat (length hash1))))
                       (Fin 100)))"

text \<open>
  \<^verbatim>\<open>areImagesSimilar\<close> reads the threshold from the mutable \<^verbatim>\<open>config.hashDifferenceThreshold\<close>;
  here it is the first argument.
\<close>

definition areImagesSimilar :: "rat \<Rightarrow> string \<Rightarrow> string \<Rightarrow> error + bool" where
  "areImagesSimilar hashDifferenceThreshold hash1 hash2 =
     (case calculateHashDistance hash1 hash2 of
        Inl e \<Rightarrow> Inl e
      | Inr distance \<Rightarrow> Inr (js_le distance (Fin hashDifferenceThreshold)))"

definition calculateSimilarityPercentage :: "string \<Rightarrow> string \<Rightarrow> error + jsnum" where
  "calculateSimilarityPercentage hash1 hash2 =
     (case calculateHashDistance hash1 hash2 of
        Inl e \<Rightarrow> Inl e
      | Inr distance \<Rightarrow>
          (let maxDistance = js_mul (Fin (of_nat (length hash1))) (Fin 4)
           in Inr (js_sub (Fin 100) (js_mul (js_div distance maxDistance) (Fin 100)))))"

text \<open>
  The number of positions at which two strings differ, stated on the strings themselves;
  \<open>hamming_eq_differing\<close> shows that the index loop computes it.
\<close>

definition differing :: "string \<Rightarrow> string \<Rightarrow> nat" where
  "differing a b = length (filter (\<lambda>(x, y). x \<noteq> y) (zip a b))"

section \<open>Configuration (config.js)\<close>

text \<open>
  The fields of the mutable \<^verbatim>\<open>config\<close> module that the modelled functions read. In the
  source \<^verbatim>\<open>hashDifferenceThreshold\<close> is \<^verbatim>\<open>parseInt(...) || 10\<close> and can be reset by the
  \<^verbatim>\<open>/set_threshold\<close> command; \<^verbatim>\<open>maxImagesInMemory\<close> is \<open>100\<close>.
\<close>

record config =
  channelId :: string
  hashDifferenceThreshold :: rat
  maxImagesInMemory :: nat

definition default_config :: config where
  "default_config =
     \<lparr>channelId = [], hashDifferenceThreshold = 10, maxImagesInMemory = 100\<rparr>"

section \<open>Decimal rendering of numbers\<close>

text \<open>
  Template literals such as \<^verbatim>\<open>`https://t.me/c/${pureChannelId}/${messageId}`\<close> render an
  integer in decimal.
\<close>

fun string_of_nat :: "nat \<Rightarrow> string" where
  "string_of_nat n =
     (if n < 10 then [''0123456789'' ! n]
      else string_of_nat (n div 10) @ [''0123456789'' ! (n mod 10)])"

declare string_of_nat.simps [simp del]

definition string_of_int :: "int \<Rightarrow> string" where
  "string_of_int i =
     (if i < 0 then CHR ''-'' # string_of_nat (nat (- i)) else string_of_nat (nat i))"

section \<open>Image record store (imageDatabase.js)\<close>

text \<open>
  An image record as \<^verbatim>\<open>addImage\<close> receives it. The fields \<^verbatim>\<open>userId\<close>, \<^verbatim>\<open>fileSize\<close>,
  \<^verbatim>\<open>width\<close>, \<^verbatim>\<open>height\<close> and \<^verbatim>\<open>date\<close> are carried by the source but read by none of the
  functions modelled here, and are left out. An absent \<^verbatim>\<open>addedAt\<close>, \<^verbatim>\<open>channelUsername\<close>
  or \<^verbatim>\<open>messageLink\<close> is \<open>None\<close>; an absent \<^verbatim>\<open>hash\<close> or \<^verbatim>\<open>source\<close> is the empty string and an
  absent \<^verbatim>\<open>timestamp\<close> is \<open>0\<close>, which the source treats alike (\<^verbatim>\<open>img.hash &&\<close>,
  \<^verbatim>\<open>imageInfo.source || 'unknown'\<close>, \<^verbatim>\<open>a.timestamp || 0\<close>).
\<close>

record image =
  fileId :: string
  hash :: string
  messageId :: int
  chatId :: string
  channelUsername :: "string option"
  timestamp :: int
  source :: string
  addedAt :: "string option"
  messageLink :: "string option"

text \<open>
  The two readings of the clock: \<^verbatim>\<open>new Date().toISOString()\<close> and
  \<^verbatim>\<open>Math.floor(Date.now() / 1000)\<close>.
\<close>

record clock =
  iso :: string
  secs :: int

text \<open>
  The store object. \<open>images\<close> is the in-memory cache (\<^verbatim>\<open>this.images\<close>); \<open>db\<close> is the SQLite
  handle \<^verbatim>\<open>this.db\<close>, \<open>None\<close> while it is \<^verbatim>\<open>null\<close>, and otherwise the rows of the table
  \<^verbatim>\<open>images\<close> in insertion order. SQLite statements are taken to succeed (their \<^verbatim>\<open>err\<close>
  branches are not modelled).
\<close>

record imageDatabase =
  images :: "image list"
  db :: "image list option"
  loaded :: bool
  useSqlite :: bool

definition new_ImageDatabase :: imageDatabase where
  "new_ImageDatabase = \<lparr>images = [], db = None, loaded = False, useSqlite = True\<rparr>"

text \<open>
  What \<^verbatim>\<open>load\<close> finds outside the program: whether SQLite can be opened and read, and then
  the rows of its table (after the import of a legacy JSON file, if any); and the legacy
  JSON file, which is absent, unreadable, or a list of records.
\<close>

datatype json_file = JsonAbsent | JsonBroken | JsonRecords "image list"

record storage =
  sqliteRows :: "image list option"
  jsonFile :: json_file

definition loadFromJson :: "storage \<Rightarrow> imageDatabase \<Rightarrow> imageDatabase" where
  "loadFromJson st s =
     (case jsonFile st of
        JsonRecords recs \<Rightarrow> s\<lparr>images := recs, loaded := True\<rparr>
      | JsonAbsent \<Rightarrow> s\<lparr>images := [], loaded := True\<rparr>
      | JsonBroken \<Rightarrow> s\<lparr>images := []\<rparr>)"

definition load :: "storage \<Rightarrow> imageDatabase \<Rightarrow> imageDatabase" where
  "load st s =
     (if useSqlite s then
        (case sqliteRows st of
           Some rows \<Rightarrow> s\<lparr>db := Some rows, images := rows, loaded := True\<rparr>
         | None \<Rightarrow> loadFromJson st (s\<lparr>useSqlite := False\<rparr>))
      else loadFromJson st s)"

text \<open>
  \<^verbatim>\<open>INSERT OR IGNORE\<close> under \<^verbatim>\<open>UNIQUE(fileId)\<close>: the row is appended unless a row with the
  same \<^verbatim>\<open>fileId\<close> exists; the result is \<^verbatim>\<open>this.changes > 0\<close>. The table has no column for
  \<^verbatim>\<open>channelUsername\<close> and \<^verbatim>\<open>messageLink\<close>.
\<close>

definition or_now :: "clock \<Rightarrow> string option \<Rightarrow> string" where
  "or_now clk a = (case a of None \<Rightarrow> iso clk | Some t \<Rightarrow> if t = [] then iso clk else t)"

definition sqlite_row :: "clock \<Rightarrow> image \<Rightarrow> image" where
  "sqlite_row clk imageInfo =
     imageInfo\<lparr>timestamp := (if timestamp imageInfo = 0 then secs clk else timestamp imageInfo),
               source := (if source imageInfo = [] then ''unknown'' else source imageInfo),
               addedAt := Some (or_now clk (addedAt imageInfo)),
               channelUsername := None,
               messageLink := None\<rparr>"

definition addImageToSqlite :: "clock \<Rightarrow> image list \<Rightarrow> image \<Rightarrow> image list \<times> bool" where
  "addImageToSqlite clk rows imageInfo =
     (if fileId imageInfo \<in> set (map fileId rows) then (rows, False)
      else (rows @ [sqlite_row clk imageInfo], True))"

text \<open>
  \<^verbatim>\<open>_.sortBy(this.images, 'addedAt')\<close> is a stable ascending sort that puts records without
  the key last; strings compare by code unit, lexicographically. \<^verbatim>\<open>.slice(-n)\<close> keeps the
  last \<open>n\<close> elements, and the whole array when \<open>n\<close> is \<open>0\<close> (\<^verbatim>\<open>slice(-0)\<close> is \<^verbatim>\<open>slice(0)\<close>).
\<close>

definition sortBy_addedAt :: "image list \<Rightarrow> image list" where
  "sortBy_addedAt xs =
     sort_key (\<lambda>img. the (addedAt img)) (filter (\<lambda>img. addedAt img \<noteq> None) xs)
       @ filter (\<lambda>img. addedAt img = None) xs"

definition slice_last :: "nat \<Rightarrow> 'a list \<Rightarrow> 'a list" where
  "slice_last n xs = (if n = 0 then xs else drop (length xs - n) xs)"

definition evict :: "config \<Rightarrow> image list \<Rightarrow> image list" where
  "evict cfg imgs =
     (if length imgs > maxImagesInMemory cfg
      then slice_last (maxImagesInMemory cfg) (sortBy_addedAt imgs)
      else imgs)"

definition addImage ::
  "config \<Rightarrow> clock \<Rightarrow> imageDatabase \<Rightarrow> image \<Rightarrow> (error + bool) \<times> imageDatabase" where
  "addImage cfg clk s imageInfo =
     (if \<not> loaded s then (Inl NotLoaded, s)
      else if useSqlite s then
        (case db s of
           None \<Rightarrow> (Inl NullHandle, s)
         | Some rows \<Rightarrow>
             (let (rows', added) = addImageToSqlite clk rows imageInfo;
                  s1 = s\<lparr>db := Some rows'\<rparr>
              in if added
                 then (Inr True,
                       s1\<lparr>images := evict cfg
                            (images s1 @ [imageInfo\<lparr>addedAt := Some (or_now clk (addedAt imageInfo))\<rparr>])\<rparr>)
                 else (Inr False, s1)))
      else
        (let exists = list_ex (\<lambda>img. fileId img = fileId imageInfo) (images s)
         in if \<not> exists
            then (Inr True,
                  s\<lparr>images := evict cfg (images s @ [imageInfo\<lparr>addedAt := Some (iso clk)\<rparr>])\<rparr>)
            else (Inr False, s)))"

text \<open>
  \<^verbatim>\<open>this.images.filter(img => img.hash && similarityFunction(hash, img.hash))\<close>; the
  similarity function may throw, and the exception leaves the filter.
\<close>

fun filterE :: "('a \<Rightarrow> error + bool) \<Rightarrow> 'a list \<Rightarrow> error + 'a list" where
  "filterE p [] = Inr []"
| "filterE p (x # xs) =
     (case p x of
        Inl e \<Rightarrow> Inl e
      | Inr keep \<Rightarrow>
          (case filterE p xs of
             Inl e \<Rightarrow> Inl e
           | Inr ys \<Rightarrow> Inr (if keep then x # ys else ys)))"

definition findSimilarImages ::
  "imageDatabase \<Rightarrow> string \<Rightarrow> (string \<Rightarrow> string \<Rightarrow> error + bool) \<Rightarrow> error + image list" where
  "findSimilarImages s h similarityFunction =
     filterE (\<lambda>img. if hash img = [] then Inr False else similarityFunction h (hash img))
       (images s)"

definition getAllImages :: "imageDatabase \<Rightarrow> image list" where
  "getAllImages s = images s"

text \<open>
  \<^verbatim>\<open>removeImage\<close> in SQLite mode: \<^verbatim>\<open>this.db.run\<close> on a \<^verbatim>\<open>null\<close> handle throws in the promise
  executor; with a handle, the row is deleted and the callback, a \<^verbatim>\<open>function(err)\<close> whose
  \<^verbatim>\<open>this\<close> is the statement, throws on \<^verbatim>\<open>this.images.length\<close> before it touches the cache.
\<close>

definition removeImage :: "imageDatabase \<Rightarrow> string \<Rightarrow> (error + bool) \<times> imageDatabase" where
  "removeImage s fid =
     (if useSqlite s then
        (case db s of
           None \<Rightarrow> (Inl NullHandle, s)
         | Some rows \<Rightarrow>
             (Inl CallbackTypeError, s\<lparr>db := Some (filter (\<lambda>r. fileId r \<noteq> fid) rows)\<rparr>))
      else
        (let initialLength = length (images s);
             s' = s\<lparr>images := filter (\<lambda>img. fileId img \<noteq> fid) (images s)\<rparr>
         in (Inr (initialLength \<noteq> length (images s')), s')))"

text \<open>\<^verbatim>\<open>clear\<close> resolves to \<^verbatim>\<open>true\<close> in SQLite mode and to \<^verbatim>\<open>undefined\<close> otherwise.\<close>

definition clear :: "imageDatabase \<Rightarrow> (error + bool option) \<times> imageDatabase" where
  "clear s =
     (if useSqlite s then
        (case db s of
           None \<Rightarrow> (Inl NullHandle, s)
         | Some rows \<Rightarrow> (Inr (Some True), s\<lparr>db := Some [], images := []\<rparr>))
      else (Inr None, s\<lparr>images := []\<rparr>))"

text \<open>
  Adding a list of records one after the other, as a scan does, each with its own reading
  of the clock.
\<close>

fun addImages :: "config \<Rightarrow> imageDatabase \<Rightarrow> (clock \<times> image) list \<Rightarrow> imageDatabase" where
  "addImages cfg s [] = s"
| "addImages cfg s ((clk, imageInfo) # rest) =
     addImages cfg (snd (addImage cfg clk s imageInfo)) rest"

text \<open>
  Sample data: the record that the lightweight scan builds for a photo in message \<open>n\<close> of
  the channel \<open>-1001234567890\<close>, and the clock of the store at that moment.
\<close>

definition sample_image :: "nat \<Rightarrow> image" where
  "sample_image n =
     \<lparr>fileId = ''virtual_'' @ string_of_nat n,
      hash = ''photo_'' @ string_of_nat (5000 + n) @ ''_800x600'',
      messageId = int n,
      chatId = ''1234567890'',
      channelUsername = None,
      timestamp = 1700000000 + int n,
      source = ''channel_scan_lightweight'',
      addedAt = None,
      messageLink = Some (''https://t.me/c/1234567890/'' @ string_of_nat n)\<rparr>"

definition sample_clock :: clock where
  "sample_clock = \<lparr>iso = ''2024-01-01T00:00:00.000Z'', secs = 1704067200\<rparr>"

definition sample_adds :: "nat \<Rightarrow> (clock \<times> image) list" where
  "sample_adds n = map (\<lambda>k. (sample_clock, sample_image k)) [0..<n]"

text \<open>
  Two stores reached by \<^verbatim>\<open>load\<close>: an empty SQLite store, and a store that fell back to a
  legacy JSON file of 100 records because SQLite could not be opened.
\<close>

definition stored_image :: "nat \<Rightarrow> image" where
  "stored_image n = (sample_image n)\<lparr>addedAt := Some ''2023-12-31T00:00:00.000Z''\<rparr>"

definition empty_sqlite_store :: imageDatabase where
  "empty_sqlite_store = load \<lparr>sqliteRows = Some [], jsonFile = JsonAbsent\<rparr> new_ImageDatabase"

definition empty_json_store :: imageDatabase where
  "empty_json_store = load \<lparr>sqliteRows = None, jsonFile = JsonAbsent\<rparr> new_ImageDatabase"

definition full_json_store :: imageDatabase where
  "full_json_store =
     load \<lparr>sqliteRows = None, jsonFile = JsonRecords (map stored_image [0..<100])\<rparr>
       new_ImageDatabase"

section \<open>Message links\<close>

text \<open>
  \<^verbatim>\<open>_createMessageLink(channelId, messageId)\<close> of the scanner. The channel is given as the
  string \<^verbatim>\<open>channelId.toString()\<close>; \<^verbatim>\<open>/^\d+$/\<close> accepts a non-empty string of decimal digits;
  \<^verbatim>\<open>replace(/^-100/, '')\<close> and \<^verbatim>\<open>replace(/^@/, '')\<close> drop a leading \<^verbatim>\<open>-100\<close> and a leading
  \<^verbatim>\<open>@\<close>.
\<close>

definition all_digits :: "string \<Rightarrow> bool" where
  "all_digits cs = (cs \<noteq> [] \<and> list_all (\<lambda>c. c \<in> set ''0123456789'') cs)"

definition strip_prefix :: "string \<Rightarrow> string \<Rightarrow> string" where
  "strip_prefix p cs = (if prefix p cs then drop (length p) cs else cs)"

definition private_createMessageLink :: "string \<Rightarrow> int \<Rightarrow> string" where
  "private_createMessageLink channel msgId =
     (if prefix ''-100'' channel \<or> all_digits channel
      then (let pureChannelId = strip_prefix ''-100'' channel
            in ''https://t.me/c/'' @ pureChannelId @ ''/'' @ string_of_int msgId)
      else (let channelName = strip_prefix ''@'' channel
            in ''https://t.me/'' @ channelName @ ''/'' @ string_of_int msgId))"

text \<open>
  \<^verbatim>\<open>createMessageLink(image)\<close> of the analyzer; \<^verbatim>\<open>image.channelUsername || chatId\<close> takes
  the chat id when the user name is absent or empty.
\<close>

definition createMessageLink :: "image \<Rightarrow> string" where
  "createMessageLink img =
     (let chat = chatId img; msgId = messageId img
      in if chat \<noteq> [] \<and> prefix ''-100'' chat
         then ''https://t.me/c/'' @ drop 4 chat @ ''/'' @ string_of_int msgId
         else if chat \<noteq> []
         then (let channelName =
                     (case channelUsername img of
                        None \<Rightarrow> chat
                      | Some u \<Rightarrow> if u = [] then chat else u)
               in ''https://t.me/'' @ channelName @ ''/'' @ string_of_int msgId)
         else [])"

section \<open>Grouping by similarity\<close>

text \<open>
  \<^verbatim>\<open>groupSimilarImages(images, threshold)\<close> of imageHasher.js. The outer loop runs over the
  positions \<open>i\<close> of the array, the inner loop over all positions \<open>j \<noteq> i\<close>; \<open>processedIds\<close>
  is the set of \<^verbatim>\<open>messageId\<close>s already placed. \<^verbatim>\<open>calculateSimilarityPercentage\<close> may throw,
  which ends the whole call.
\<close>

fun group_inner ::
  "rat \<Rightarrow> nat \<Rightarrow> image \<Rightarrow> (nat \<times> image) list \<Rightarrow> image list \<times> int set
     \<Rightarrow> error + (image list \<times> int set)" where
  "group_inner threshold i currentImage [] (grp, processedIds) = Inr (grp, processedIds)"
| "group_inner threshold i currentImage ((j, compareImage) # rest) (grp, processedIds) =
     (if i = j then group_inner threshold i currentImage rest (grp, processedIds)
      else if messageId compareImage \<in> processedIds
      then group_inner threshold i currentImage rest (grp, processedIds)
      else (case calculateSimilarityPercentage (hash currentImage) (hash compareImage) of
              Inl e \<Rightarrow> Inl e
            | Inr similarity \<Rightarrow>
                if js_ge similarity (Fin threshold)
                then group_inner threshold i currentImage rest
                       (grp @ [compareImage], insert (messageId compareImage) processedIds)
                else group_inner threshold i currentImage rest (grp, processedIds)))"

fun group_outer ::
  "rat \<Rightarrow> (nat \<times> image) list \<Rightarrow> (nat \<times> image) list \<Rightarrow> image list list \<times> int set
     \<Rightarrow> error + (image list list \<times> int set)" where
  "group_outer threshold imagesCopy [] (groups, processedIds) = Inr (groups, processedIds)"
| "group_outer threshold imagesCopy ((i, currentImage) # rest) (groups, processedIds) =
     (if messageId currentImage \<in> processedIds
      then group_outer threshold imagesCopy rest (groups, processedIds)
      else (case group_inner threshold i currentImage imagesCopy
                   ([currentImage], insert (messageId currentImage) processedIds) of
              Inl e \<Rightarrow> Inl e
            | Inr (grp, processedIds') \<Rightarrow>
                group_outer threshold imagesCopy rest
                  (if length grp > 1 then groups @ [grp] else groups, processedIds')))"

definition groupSimilarImages :: "image list \<Rightarrow> rat \<Rightarrow> error + image list list" where
  "groupSimilarImages imgs threshold =
     (case group_outer threshold (enumerate 0 imgs) (enumerate 0 imgs) ([], {}) of
        Inl e \<Rightarrow> Inl e
      | Inr (groups, processedIds) \<Rightarrow> Inr groups)"

text \<open>
  \<^verbatim>\<open>findSimilarGroups()\<close> of imageAnalyzer.js: for every image of \<^verbatim>\<open>getAllImages()\<close> whose
  \<^verbatim>\<open>fileId\<close> is not yet processed, all images of the store similar to it (by
  \<^verbatim>\<open>areImagesSimilar\<close>, with the configured threshold) form a group, when there are at least
  two of them. A group is the pair of \<^verbatim>\<open>baseImage\<close> and \<^verbatim>\<open>similarImages\<close>.
\<close>

fun findSimilarGroups_loop ::
  "config \<Rightarrow> imageDatabase \<Rightarrow> image list \<Rightarrow> (image \<times> image list) list \<times> string set
     \<Rightarrow> error + (image \<times> image list) list" where
  "findSimilarGroups_loop cfg s [] (groups, processedIds) = Inr groups"
| "findSimilarGroups_loop cfg s (img # rest) (groups, processedIds) =
     (if fileId img \<in> processedIds then findSimilarGroups_loop cfg s rest (groups, processedIds)
      else (case findSimilarImages s (hash img) (areImagesSimilar (hashDifferenceThreshold cfg)) of
              Inl e \<Rightarrow> Inl e
            | Inr similarImages \<Rightarrow>
                if length similarImages > 1
                then findSimilarGroups_loop cfg s rest
                       (groups @ [(img, filter (\<lambda>x. fileId x \<noteq> fileId img) similarImages)],
                        processedIds \<union> set (map fileId similarImages))
                else findSimilarGroups_loop cfg s rest (groups, processedIds)))"

definition findSimilarGroups ::
  "config \<Rightarrow> imageDatabase \<Rightarrow> error + (image \<times> image list) list" where
  "findSimilarGroups cfg s = findSimilarGroups_loop cfg s (getAllImages s) ([], {})"

text \<open>
  Sample records with a given signature, as a scan with download stores them, and a loaded
  store that holds three of them.
\<close>

definition hashed_image :: "nat \<Rightarrow> string \<Rightarrow> image" where
  "hashed_image n hsh = (sample_image n)\<lparr>hash := hsh, source := ''channel_scan''\<rparr>"

definition three_image_store :: imageDatabase where
  "three_image_store =
     load \<lparr>sqliteRows = Some [hashed_image 1 ''0000000000000000'',
                              hashed_image 2 ''0000000000000011'',
                              hashed_image 3 ''0000000000000001''],
           jsonFile = JsonAbsent\<rparr>
       new_ImageDatabase"

section \<open>Scan orchestrator (updatedChannelScanner.js)\<close>

text \<open>
  The fields of a Telegram message that the scanner reads. A message carries either the
  MTProto shape (\<^verbatim>\<open>message.media\<close>, with \<^verbatim>\<open>media._\<close>, \<^verbatim>\<open>media.photo\<close>, \<^verbatim>\<open>media.document\<close>)
  or the Bot API shape (\<^verbatim>\<open>message.photo\<close>, an array of sizes); \<open>message_id\<close> stands for
  \<^verbatim>\<open>message.id\<close> and \<^verbatim>\<open>message.message_id\<close>. An absent \<^verbatim>\<open>media._\<close> is the empty string.
\<close>

record photo_size =
  size_w :: nat
  size_h :: nat

record tg_photo =
  photo_id :: nat
  photo_sizes :: "photo_size list"

record tg_document =
  document_id :: nat
  mime_type :: "string option"
  document_size :: nat

record tg_media =
  media_kind :: string
  media_photo :: "tg_photo option"
  media_document :: "tg_document option"

record bot_photo_size =
  file_id :: string
  bot_width :: nat
  bot_height :: nat

record message =
  message_id :: int
  message_date :: int
  message_chat :: string
  message_media :: "tg_media option"
  message_photo :: "bot_photo_size list option"

definition image_document :: "tg_media \<Rightarrow> bool" where
  "image_document m =
     (case media_document m of
        None \<Rightarrow> False
      | Some d \<Rightarrow> (case mime_type d of None \<Rightarrow> False | Some mt \<Rightarrow> mt \<noteq> [] \<and> prefix ''image/'' mt))"

definition private_hasPhoto :: "message \<Rightarrow> bool" where
  "private_hasPhoto message =
     (case message_media message of
        None \<Rightarrow> False
      | Some m \<Rightarrow>
          if media_kind m = ''messageMediaPhoto'' \<or> media_kind m = ''MessageMediaPhoto''
             \<or> media_photo m \<noteq> None then True
          else if (media_kind m = ''messageMediaDocument'' \<or> media_kind m = ''MessageMediaDocument'')
                  \<and> image_document m then True
          else if media_kind m = ''Photo'' then True
          else if message_photo message \<noteq> None then True
          else False)"

text \<open>
  \<^verbatim>\<open>_createPhotoSignature\<close>: the result is \<open>None\<close> for \<^verbatim>\<open>null\<close>, which the source returns for
  an empty signature and when reading the last element of an empty Bot API array throws.
\<close>

definition botapi_signature :: "message \<Rightarrow> string option" where
  "botapi_signature message =
     (case message_photo message of
        None \<Rightarrow> None
      | Some photoSizes \<Rightarrow>
          if photoSizes = [] then None
          else (let largestPhoto = last photoSizes
                in Some (''botapi_'' @ file_id largestPhoto @ ''_''
                         @ string_of_nat (bot_width largestPhoto) @ ''x''
                         @ string_of_nat (bot_height largestPhoto))))"

definition private_createPhotoSignature :: "message \<Rightarrow> string option" where
  "private_createPhotoSignature message =
     (case message_media message of
        None \<Rightarrow> botapi_signature message
      | Some m \<Rightarrow>
          (case media_photo m of
             Some photo \<Rightarrow>
               Some (''photo_'' @ string_of_nat (photo_id photo) @ ''_''
                     @ (if photo_sizes photo = [] then ''unknown''
                        else (let largestSize = last (photo_sizes photo)
                              in string_of_nat (size_w largestSize) @ ''x''
                                 @ string_of_nat (size_h largestSize))))
           | None \<Rightarrow>
               (case media_document m of
                  Some doc \<Rightarrow>
                    Some (''doc_'' @ string_of_nat (document_id doc) @ ''_''
                          @ (case mime_type doc of None \<Rightarrow> ''undefined'' | Some mt \<Rightarrow> mt)
                          @ ''_'' @ string_of_nat (document_size doc))
                | None \<Rightarrow> botapi_signature message)))"

text \<open>
  The world outside the scanner, as the values it returns to the calls of one scan:
  \<^item> \<open>estimatedMessageCount\<close>: the result of \<^verbatim>\<open>getChannelMessagesCount\<close>, which catches its
    own errors;
  \<^item> \<open>getEntity\<close>: the channel information, or the exception of the client initialisation or
    of \<^verbatim>\<open>client.getEntity\<close>;
  \<^item> \<open>getMessages limit offsetId\<close>: a batch of \<^verbatim>\<open>client.getMessages\<close>, or its exception;
  \<^item> \<open>clockAt n\<close>: the clock at the \<open>n\<close>-th step of the scan (a call of \<^verbatim>\<open>addImage\<close> in the scan
    without download, a download in the scan with download);
  \<^item> \<open>reportWritten\<close>: the exception of writing the report file, if any;
  \<^item> \<open>isBotChannelAdmin\<close>, \<open>hasCredentials\<close> (\<^verbatim>\<open>API_ID\<close> and \<^verbatim>\<open>API_HASH\<close> are set),
    \<open>history method paged limit\<close> (the message history by one of the three clients, which
    catch their own errors and then return the empty list) and \<open>fetchPhoto method message\<close>
    (the downloaded file's name and the hash of its bytes, or the exception of the
    download or of the decoder), for the scan with download;
  \<^item> \<open>landedBefore n\<close>: how many of the store insertions that the scan with download has
    started without awaiting them have completed when its \<open>n\<close>-th download returns;
  \<^item> \<open>rejectionEndsProcess\<close>: whether the runtime ends the process on an unhandled
    promise rejection (the default of Node.js from version 15 on).
\<close>

record channel_info =
  info_id :: string
  info_title :: string
  info_username :: "string option"

record telegram =
  estimatedMessageCount :: nat
  getEntity :: "error + channel_info"
  getMessages :: "nat \<Rightarrow> int \<Rightarrow> error + message list"
  clockAt :: "nat \<Rightarrow> clock"
  reportWritten :: "error option"
  isBotChannelAdmin :: bool
  hasCredentials :: bool
  history :: "string \<Rightarrow> bool \<Rightarrow> nat \<Rightarrow> message list"
  fetchPhoto :: "string \<Rightarrow> message \<Rightarrow> error + string \<times> string"
  landedBefore :: "nat \<Rightarrow> nat"
  rejectionEndsProcess :: bool

text \<open>
  The scanner object (its network clients are part of \<open>telegram\<close>), the counters of one
  scan, and what a scan returns: \<open>Busy\<close> is \<^verbatim>\<open>{ success: false, message: ... }\<close> of the guard,
  \<open>Failed\<close> is \<^verbatim>\<open>{ success: false, error: ... }\<close> of the \<^verbatim>\<open>catch\<close>, \<open>Completed\<close> is
  \<^verbatim>\<open>{ success: true, results }\<close>.
\<close>

record scanner =
  isScanning :: bool
  processedMessageIds :: "int set"

record scan_results =
  totalMessages :: nat
  processedImages :: nat
  similarImagesFound :: nat
  duplicateGroups :: "(string \<times> image list) list"
  errors :: nat
  scan_method :: string

datatype scan_outcome = Busy | Failed error | Completed scan_results | ProcessEnded

definition new_results :: "string \<Rightarrow> scan_results" where
  "new_results m =
     \<lparr>totalMessages = 0, processedImages = 0, similarImagesFound = 0, duplicateGroups = [],
      errors = 0, scan_method = m\<rparr>"

subsection \<open>Scan without download\<close>

text \<open>
  One message of a batch: a photo with a signature is stored with \<^verbatim>\<open>await addImage\<close> and
  counted, also when the store already had it; an exception of \<^verbatim>\<open>addImage\<close> is caught and
  counted in \<^verbatim>\<open>errors\<close>.
\<close>

definition light_message ::
  "config \<Rightarrow> telegram \<Rightarrow> string \<Rightarrow> channel_info \<Rightarrow> message
     \<Rightarrow> scan_results \<times> imageDatabase \<times> nat \<Rightarrow> scan_results \<times> imageDatabase \<times> nat" where
  "light_message cfg tg channelTarget channelInfo message st =
     (case st of (results, store, tick) \<Rightarrow>
        if private_hasPhoto message then
          (case private_createPhotoSignature message of
             None \<Rightarrow> st
           | Some photoSignature \<Rightarrow>
               (let imageInfo =
                      \<lparr>fileId = ''virtual_'' @ string_of_int (message_id message),
                       hash = photoSignature,
                       messageId = message_id message,
                       chatId = info_id channelInfo,
                       channelUsername =
                         (case info_username channelInfo of
                            None \<Rightarrow> None
                          | Some u \<Rightarrow> if u = [] then None else Some u),
                       timestamp = message_date message,
                       source = ''channel_scan_lightweight'',
                       addedAt = None,
                       messageLink =
                         Some (private_createMessageLink channelTarget (message_id message))\<rparr>
                in (case addImage cfg (clockAt tg tick) store imageInfo of
                      (Inl e, store') \<Rightarrow> (results\<lparr>errors := errors results + 1\<rparr>, store', tick + 1)
                    | (Inr added, store') \<Rightarrow>
                        (results\<lparr>processedImages := processedImages results + 1\<rparr>,
                         store', tick + 1))))
        else st)"

text \<open>
  The batch loop \<^verbatim>\<open>for (let batch = 0; batch < batchCount; batch++)\<close>. \<open>steps\<close> counts the
  batches left. When \<^verbatim>\<open>batchSize\<close> is 0, \<^verbatim>\<open>batchCount\<close> is \<^verbatim>\<open>Infinity\<close> and only an empty batch
  or an exception ends the loop: then \<open>bounded\<close> is false, \<open>steps\<close> is fuel, and running out
  of it is \<open>None\<close>. The result says whether an exception ended the loop, and holds the
  counters and the store as they were at that moment. The pause between batches changes
  no state and is not modelled.
\<close>

fun light_batches ::
  "config \<Rightarrow> telegram \<Rightarrow> string \<Rightarrow> channel_info \<Rightarrow> nat \<Rightarrow> bool \<Rightarrow> nat \<Rightarrow> int
     \<Rightarrow> scan_results \<times> imageDatabase \<times> nat
     \<Rightarrow> (error option \<times> scan_results \<times> imageDatabase \<times> nat) option" where
  "light_batches cfg tg channelTarget channelInfo batchSize bounded 0 offsetId st =
     (if bounded then Some (None, st) else None)"
| "light_batches cfg tg channelTarget channelInfo batchSize bounded (Suc steps) offsetId st =
     (case getMessages tg batchSize offsetId of
        Inl e \<Rightarrow> Some (Some e, st)
      | Inr messages \<Rightarrow>
          if messages = [] then Some (None, st)
          else (case st of (results, store, tick) \<Rightarrow>
                  light_batches cfg tg channelTarget channelInfo batchSize bounded steps
                    (message_id (last messages))
                    (fold (light_message cfg tg channelTarget channelInfo) messages
                       (results\<lparr>totalMessages := totalMessages results + length messages\<rparr>,
                        store, tick))))"

text \<open>
  The grouping after the loop. \<^verbatim>\<open>hashGroups\<close> is a \<^verbatim>\<open>Map\<close> from signature to the array of
  records with that signature, in insertion order; the groups of more than one record are
  sorted by \<^verbatim>\<open>timestamp\<close>, and the list of groups by descending \<^verbatim>\<open>count\<close> (both sorts are
  stable).
\<close>

fun hashGroups_push :: "image \<Rightarrow> (string \<times> image list) list \<Rightarrow> (string \<times> image list) list" where
  "hashGroups_push img [] = [(hash img, [img])]"
| "hashGroups_push img ((k, imgs) # rest) =
     (if k = hash img then (k, imgs @ [img]) # rest
      else (k, imgs) # hashGroups_push img rest)"

definition hashGroups :: "image list \<Rightarrow> (string \<times> image list) list" where
  "hashGroups allImages = fold hashGroups_push allImages []"

definition scan_duplicateGroups :: "image list \<Rightarrow> (string \<times> image list) list" where
  "scan_duplicateGroups allImages =
     sort_key (\<lambda>g. - int (length (snd g)))
       (map (\<lambda>g. (fst g, sort_key timestamp (snd g)))
          (filter (\<lambda>g. length (snd g) > 1) (hashGroups allImages)))"

definition lightweight_snapshot :: "imageDatabase \<Rightarrow> image list" where
  "lightweight_snapshot store =
     filter (\<lambda>img. source img = ''channel_scan_lightweight'') (getAllImages store)"

definition scanEntireChannelWithoutDownload ::
  "config \<Rightarrow> telegram \<Rightarrow> nat \<Rightarrow> scanner \<Rightarrow> imageDatabase \<Rightarrow> string \<Rightarrow> nat
     \<Rightarrow> (scan_outcome \<times> scanner \<times> imageDatabase) option" where
  "scanEntireChannelWithoutDownload cfg tg fuel sc store channelIdArg batchSize =
     (if isScanning sc then Some (Busy, sc, store)
      else
        (let channelTarget = (if channelIdArg \<noteq> [] then channelIdArg else channelId cfg);
             idle = sc\<lparr>isScanning := False\<rparr>
         in if channelTarget = [] then Some (Failed NoChannel, idle, store)
            else
              (let bounded = (batchSize \<noteq> 0 \<or> estimatedMessageCount tg = 0);
                   steps = (if batchSize = 0
                            then (if estimatedMessageCount tg = 0 then 0 else fuel)
                            else (estimatedMessageCount tg + batchSize - 1) div batchSize)
               in case getEntity tg of
                    Inl e \<Rightarrow> Some (Failed e, idle, store)
                  | Inr channelInfo \<Rightarrow>
                      (case light_batches cfg tg channelTarget channelInfo batchSize bounded
                              steps 0 (new_results ''gramjs'', store, 0) of
                         None \<Rightarrow> None
                       | Some (Some e, results, store', tick) \<Rightarrow> Some (Failed e, idle, store')
                       | Some (None, results, store', tick) \<Rightarrow>
                           (let groups = scan_duplicateGroups (lightweight_snapshot store');
                                results' = results
                                  \<lparr>duplicateGroups := groups,
                                   similarImagesFound := similarImagesFound results
                                     + sum_list (map (\<lambda>g. length (snd g) - 1) groups)\<rparr>
                            in case reportWritten tg of
                                 Some e \<Rightarrow> Some (Failed e, idle, store')
                               | None \<Rightarrow> Some (Completed results', idle, store'))))))"

subsection \<open>Scan with download\<close>

definition determineOptimalMethod :: "telegram \<Rightarrow> string" where
  "determineOptimalMethod tg =
     (if \<not> isBotChannelAdmin tg
      then (if hasCredentials tg then ''gramjs'' else ''botapi'')
      else if history tg ''botapi'' False 10 \<noteq> [] then ''botapi''
      else (if hasCredentials tg then ''gramjs'' else ''botapi''))"

definition scan_hasPhoto :: "string \<Rightarrow> message \<Rightarrow> bool" where
  "scan_hasPhoto actualMethod message =
     (if actualMethod = ''botapi'' \<and> message_photo message \<noteq> None then True
      else if actualMethod \<noteq> ''botapi'' then
        (case message_media message of
           None \<Rightarrow> False
         | Some m \<Rightarrow>
             media_kind m = ''messageMediaPhoto''
             \<or> (media_kind m = ''messageMediaDocument'' \<and> image_document m)
             \<or> media_photo m \<noteq> None
             \<or> media_kind m = ''Photo'')
      else False)"

text \<open>
  The scan with download calls \<^verbatim>\<open>addImage\<close> without \<^verbatim>\<open>await\<close>, so what the call does to the
  store depends on when its promise settles. The state of such a scan holds, besides the
  scanner and the store, the insertions that have been started and have not completed
  (\<open>ds_pending\<close>, oldest first), the number of rejected \<^verbatim>\<open>addImage\<close> promises, which nobody
  handles, and the number of downloads so far.
  \<^item> On a store that is not loaded (or has no database handle) \<^verbatim>\<open>addImage\<close> throws before
    its first \<^verbatim>\<open>await\<close>: the promise is rejected and the store is unchanged.
  \<^item> In SQLite mode \<^verbatim>\<open>addImage\<close> suspends at \<^verbatim>\<open>await this._addImageToSqlite(...)\<close>; the row
    and the cache entry appear when the callback of the statement runs. The insertion is
    pending until the environment reports it completed (\<open>landedBefore\<close>), which it can only
    do while the scan itself is suspended, that is during a download.
  \<^item> In JSON mode \<^verbatim>\<open>addImage\<close> has no \<^verbatim>\<open>await\<close> and runs to its end within the call.
\<close>

record download_state =
  ds_scanner :: scanner
  ds_store :: imageDatabase
  ds_pending :: "(clock \<times> image) list"
  ds_rejected :: nat
  ds_tick :: nat

definition land :: "config \<Rightarrow> telegram \<Rightarrow> download_state \<Rightarrow> download_state" where
  "land cfg tg st =
     (let n = landedBefore tg (ds_tick st)
      in st\<lparr>ds_store := addImages cfg (ds_store st) (take n (ds_pending st)),
            ds_pending := drop n (ds_pending st),
            ds_tick := ds_tick st + 1\<rparr>)"

definition start_addImage ::
  "config \<Rightarrow> clock \<Rightarrow> image \<Rightarrow> download_state \<Rightarrow> download_state" where
  "start_addImage cfg clk imageInfo st =
     (if \<not> loaded (ds_store st) \<or> (useSqlite (ds_store st) \<and> db (ds_store st) = None)
      then st\<lparr>ds_rejected := ds_rejected st + 1\<rparr>
      else if useSqlite (ds_store st)
      then st\<lparr>ds_pending := ds_pending st @ [(clk, imageInfo)]\<rparr>
      else st\<lparr>ds_store := snd (addImage cfg clk (ds_store st) imageInfo)\<rparr>)"

text \<open>
  \<^verbatim>\<open>processPhotoFromBotApi\<close> and \<^verbatim>\<open>processPhotoFromMtprotoApi\<close>. They differ in where the
  \<^verbatim>\<open>fileId\<close> comes from (the last size of the Bot API array, whose absence throws, or the
  name of the downloaded file) and in the \<^verbatim>\<open>source\<close> tag. Any exception is caught and
  returned as an error result. The download is the point where the scan is suspended and
  pending insertions complete; \<^verbatim>\<open>findSimilarImages\<close> then sees the cache as it is at that
  moment.
\<close>

datatype process_result = Processed image "image list" | Duplicate | ProcessError error

definition processPhoto ::
  "config \<Rightarrow> telegram \<Rightarrow> string \<Rightarrow> message \<Rightarrow> download_state
     \<Rightarrow> process_result \<times> download_state" where
  "processPhoto cfg tg clientType message st =
     (if message_id message \<in> processedMessageIds (ds_scanner st) then (Duplicate, st)
      else if clientType = ''botapi''
              \<and> (message_photo message = None \<or> message_photo message = Some [])
      then (ProcessError (External ''TypeError''), st)
      else
        (let st1 = land cfg tg st
         in case fetchPhoto tg clientType message of
              Inl e \<Rightarrow> (ProcessError e, st1)
            | Inr (name, hsh) \<Rightarrow>
                (case findSimilarImages (ds_store st1) hsh
                        (areImagesSimilar (hashDifferenceThreshold cfg)) of
                   Inl e \<Rightarrow> (ProcessError e, st1)
                 | Inr similarImages \<Rightarrow>
                     (let imageInfo =
                            \<lparr>fileId = (if clientType = ''botapi''
                                       then file_id (last (the (message_photo message)))
                                       else name),
                             hash = hsh,
                             messageId = message_id message,
                             chatId = message_chat message,
                             channelUsername = None,
                             timestamp = message_date message,
                             source = (if clientType = ''botapi'' then ''channel_scan''
                                       else ''channel_scan_'' @ clientType),
                             addedAt = None,
                             messageLink = None\<rparr>;
                          st2 = start_addImage cfg (clockAt tg (ds_tick st1)) imageInfo st1;
                          sc' = (ds_scanner st2)\<lparr>processedMessageIds :=
                                    insert (message_id message)
                                      (processedMessageIds (ds_scanner st2))\<rparr>
                      in (Processed imageInfo similarImages, st2\<lparr>ds_scanner := sc'\<rparr>)))))"

definition scan_message ::
  "config \<Rightarrow> telegram \<Rightarrow> string \<Rightarrow> message
     \<Rightarrow> scan_results \<times> download_state \<Rightarrow> scan_results \<times> download_state" where
  "scan_message cfg tg actualMethod message st =
     (case st of (results, rest) \<Rightarrow>
        if 0 < ds_rejected rest \<and> rejectionEndsProcess tg then st
        else if scan_hasPhoto actualMethod message then
          (case processPhoto cfg tg actualMethod message rest of
             (Processed imageInfo similarImages, rest') \<Rightarrow>
               (results\<lparr>processedImages := processedImages results + 1,
                        similarImagesFound := similarImagesFound results + length similarImages\<rparr>,
                rest')
           | (ProcessError e, rest') \<Rightarrow> (results\<lparr>errors := errors results + 1\<rparr>, rest')
           | (Duplicate, rest') \<Rightarrow> (results, rest'))
        else st)"

text \<open>
  \<^verbatim>\<open>scanChannel\<close>. The store it returns is the store at the moment the scan ends:
  insertions still pending then are not part of it (\<^verbatim>\<open>await imageDatabase.save()\<close> returns
  at once in SQLite mode, and in JSON mode nothing is pending). When an \<^verbatim>\<open>addImage\<close>
  promise was rejected and the runtime ends the process on unhandled rejections, the
  process ends as soon as the scan is suspended again (at the next download): the photo
  whose insertion was rejected is still counted, no later message is processed, and the
  outcome is \<open>ProcessEnded\<close>, with the scanner (its flag still set) and the store as they
  were at that moment.
\<close>

definition scanChannel ::
  "config \<Rightarrow> telegram \<Rightarrow> scanner \<Rightarrow> imageDatabase \<Rightarrow> string \<Rightarrow> nat \<Rightarrow> string
     \<Rightarrow> scan_outcome \<times> scanner \<times> imageDatabase" where
  "scanChannel cfg tg sc store channelIdArg limit methodArg =
     (if isScanning sc then (Busy, sc, store)
      else
        (let channel = (if channelIdArg \<noteq> [] then channelIdArg else channelId cfg)
         in if channel = [] then (Failed NoChannel, sc\<lparr>isScanning := False\<rparr>, store)
            else
              (let actualMethod =
                     (if methodArg = ''auto'' then determineOptimalMethod tg else methodArg)
               in if actualMethod \<noteq> ''botapi'' \<and> actualMethod \<noteq> ''gramjs''
                     \<and> actualMethod \<noteq> ''mtprotocore''
                  then (Failed (UnknownMethod actualMethod), sc\<lparr>isScanning := False\<rparr>, store)
                  else
                    (let messages =
                           (if actualMethod = ''botapi'' then history tg actualMethod False limit
                            else history tg actualMethod (limit > 100) limit)
                     in case fold (scan_message cfg tg actualMethod) messages
                               ((new_results actualMethod)\<lparr>totalMessages := length messages\<rparr>,
                                \<lparr>ds_scanner = sc, ds_store = store, ds_pending = [],
                                 ds_rejected = 0, ds_tick = 0\<rparr>) of
                          (results, st) \<Rightarrow>
                            if 0 < ds_rejected st \<and> rejectionEndsProcess tg
                            then (ProcessEnded, (ds_scanner st)\<lparr>isScanning := True\<rparr>, ds_store st)
                            else (Completed results, (ds_scanner st)\<lparr>isScanning := False\<rparr>,
                                  ds_store st)))))"

subsection \<open>A sample channel\<close>

text \<open>
  A channel with three messages, newest first. Messages 3 and 1 carry the same photo;
  message 2 carries a photo whose identifier differs in the last digit. The scanner is
  idle, and no message has been processed.
\<close>

definition photo_message :: "int \<Rightarrow> int \<Rightarrow> nat \<Rightarrow> message" where
  "photo_message n date pid =
     \<lparr>message_id = n, message_date = date, message_chat = ''-1001234567890'',
      message_media =
        Some \<lparr>media_kind = ''messageMediaPhoto'',
              media_photo = Some \<lparr>photo_id = pid,
                                  photo_sizes = [\<lparr>size_w = 320, size_h = 180\<rparr>,
                                                 \<lparr>size_w = 1280, size_h = 720\<rparr>]\<rparr>,
              media_document = None\<rparr>,
      message_photo = None\<rparr>"

definition sample_messages :: "message list" where
  "sample_messages =
     [photo_message 3 1700000300 52310402190348123,
      photo_message 2 1700000200 52310402190348124,
      photo_message 1 1700000100 52310402190348123]"

definition sample_telegram :: telegram where
  "sample_telegram =
     \<lparr>estimatedMessageCount = 10000,
      getEntity = Inr \<lparr>info_id = ''1234567890'', info_title = ''Sample'', info_username = None\<rparr>,
      getMessages = (\<lambda>limit offsetId. if offsetId = 0 then Inr sample_messages else Inr []),
      clockAt = (\<lambda>n. sample_clock),
      reportWritten = None,
      isBotChannelAdmin = False,
      hasCredentials = True,
      history = (\<lambda>m paged limit. sample_messages),
      fetchPhoto = (\<lambda>m message. Inr (''photo_'' @ string_of_int (message_id message),
                                        ''0000000000000000'')),
      landedBefore = (\<lambda>n. 1),
      rejectionEndsProcess = True\<rparr>"

definition idle_scanner :: scanner where
  "idle_scanner = \<lparr>isScanning = False, processedMessageIds = {}\<rparr>"

definition busy_scanner :: scanner where
  "busy_scanner = \<lparr>isScanning = True, processedMessageIds = {}\<rparr>"









text \<open>
  The sample channel in an environment where no insertion of the scan with download
  completes before the scan ends.
\<close>

definition slow_telegram :: telegram where
  "slow_telegram = sample_telegram\<lparr>landedBefore := (\<lambda>n. 0)\<rparr>"

section \<open>Notions of the specification used in the statements\<close>




section \<open>Properties of the rounding\<close>

text \<open>
  \<open>bit_length\<close> and \<open>exponent\<close> bracket their argument between two consecutive powers of
  two, so the spacing that \<open>fl\<close> rounds to is the spacing of the doubles of that magnitude.
\<close>

lemma bit_length_bounds:
  "0 < n \<Longrightarrow> 2 ^ (bit_length n - 1) \<le> n \<and> n < 2 ^ bit_length n"
proof (induction n rule: bit_length.induct)
  case (1 n)
  have b: "bit_length n = Suc (bit_length (n div 2))"
    using "1.prems" by (subst bit_length.simps) simp
  show ?case
  proof (cases "n div 2 = 0")
    case True
    then have "n = 1" using "1.prems" by presburger
    moreover have "bit_length (0::nat) = 0" by (subst bit_length.simps) simp
    ultimately show ?thesis using b True by simp
  next
    case False
    then have pos: "0 < n div 2" by simp
    from "1.IH" [OF _ pos] "1.prems"
    have ih: "2 ^ (bit_length (n div 2) - 1) \<le> n div 2" "n div 2 < 2 ^ bit_length (n div 2)"
      by simp_all
    have bp: "0 < bit_length (n div 2)"
      using pos by (subst bit_length.simps) simp
    then have s: "(2::nat) ^ bit_length (n div 2) = 2 * 2 ^ (bit_length (n div 2) - 1)"
      by (cases "bit_length (n div 2)") simp_all
    have "2 ^ bit_length (n div 2) \<le> n" using ih(1) s by presburger
    moreover have "n < 2 * 2 ^ bit_length (n div 2)" using ih(2) by presburger
    ultimately show ?thesis by (simp add: b)
  qed
qed

lemma exponent_lower:
  assumes "0 < x"
  shows "2 powi exponent x \<le> x"
proof (cases "1 \<le> x")
  case True
  define n where "n = nat \<lfloor>x\<rfloor>"
  have n1: "0 < n" using True by (simp add: n_def)
  have nx: "of_nat n \<le> x" using True by (simp add: n_def)
  have bp: "0 < bit_length n" using n1 by (subst bit_length.simps) simp
  have "exponent x = int (bit_length n - 1)"
    using True bp by (simp add: exponent_def n_def)
  then have "(2::rat) powi exponent x = 2 ^ (bit_length n - 1)" by simp
  also have "\<dots> = of_nat (2 ^ (bit_length n - 1))" by simp
  also have "\<dots> \<le> of_nat n"
    using bit_length_bounds [OF n1] by (simp only: of_nat_le_iff)
  finally show ?thesis using nx by simp
next
  case False
  define N where "N = nat (\<lceil>1 / x\<rceil> - 1)"
  have y: "1 < 1 / x" using assms False by simp
  then have "(1::rat) < of_int \<lceil>1 / x\<rceil>"
    using le_of_int_ceiling [of "1 / x"] by linarith
  then have "1 < \<lceil>1 / x\<rceil>" by (simp only: of_int_1_less_iff)
  then have c2: "2 \<le> \<lceil>1 / x\<rceil>" by linarith
  then have N1: "0 < N" unfolding N_def by linarith
  have e: "exponent x = - int (bit_length N)"
    using False by (simp add: exponent_def N_def)
  have "0 \<le> \<lceil>1 / x\<rceil> - 1" using c2 by linarith
  then have "int N = \<lceil>1 / x\<rceil> - 1" unfolding N_def by (rule nat_0_le)
  then have "\<lceil>1 / x\<rceil> = int N + 1" by linarith
  also have "\<dots> \<le> int (2 ^ bit_length N)"
    using bit_length_bounds [OF N1] by linarith
  finally have "\<lceil>1 / x\<rceil> \<le> 2 ^ bit_length N" by simp
  then have "1 / x \<le> of_int (2 ^ bit_length N)"
    by (simp add: ceiling_le_iff)
  then have "1 / x \<le> 2 ^ bit_length N" by simp
  then have "1 \<le> 2 ^ bit_length N * x"
    using assms by (simp add: field_simps)
  then have "inverse (2 ^ bit_length N) \<le> x"
    by (simp add: field_simps)
  then show ?thesis by (simp add: e power_int_minus)
qed

lemma round_even_of_int [simp]: "round_even (of_int n) = n"
  by (simp add: round_even_def)

lemma round_even_le: "y \<le> of_int n \<Longrightarrow> round_even y \<le> n"
proof -
  assume a: "y \<le> of_int n"
  have f: "\<lfloor>y\<rfloor> \<le> n" using a by (simp add: floor_le_iff)
  show ?thesis
  proof (cases "y = of_int \<lfloor>y\<rfloor>")
    case True
    then have "round_even y = \<lfloor>y\<rfloor>" by (metis round_even_of_int)
    with f show ?thesis by simp
  next
    case False
    then have "of_int \<lfloor>y\<rfloor> < y" using of_int_floor_le [of y] by linarith
    then have "of_int \<lfloor>y\<rfloor> < (of_int n :: rat)" using a by linarith
    then have "\<lfloor>y\<rfloor> < n" by simp
    moreover have "round_even y \<le> \<lfloor>y\<rfloor> + 1" by (simp add: round_even_def Let_def)
    ultimately show ?thesis by linarith
  qed
qed

lemma round_even_nonneg: "0 \<le> y \<Longrightarrow> 0 \<le> round_even y"
  by (auto simp: round_even_def Let_def)

lemma grid:
  assumes "0 < x" "x < of_int M * 2 powi K" "0 < M" "M < 2 ^ 53"
  shows "exponent x - 52 \<le> K"
proof -
  have "of_int M * (2::rat) powi K < 2 ^ 53 * 2 powi K"
    using assms(4) by (simp add: of_int_less_iff [of M "2 ^ 53", where ?'a = rat, simplified])
  also have "\<dots> = 2 powi (53 + K)" by (simp add: power_int_add)
  finally have "(2::rat) powi exponent x < 2 powi (53 + K)"
    using exponent_lower [OF assms(1)] assms(2) by linarith
  then have "exponent x < 53 + K"
    by (metis not_le power_int_increasing one_le_numeral leD)
  then show ?thesis by simp
qed


lemma fl_exact:
  assumes "\<bar>m\<bar> < 2 ^ 53"
  shows "fl (of_int m * 2 powi k) = of_int m * 2 powi k"
proof (cases "m = 0")
  case True
  then show ?thesis by (simp add: fl_def)
next
  case False
  define x :: rat where "x = of_int m * 2 powi k"
  define a :: rat where "a = of_int \<bar>m\<bar> * 2 powi k"
  have ax: "\<bar>x\<bar> = a" by (simp add: x_def a_def abs_mult)
  have a0: "0 < a" using False by (simp add: a_def)
  have x0: "x \<noteq> 0" using False by (simp add: x_def)
  define u where "u = exponent a - 52"
  have "a < of_int (\<bar>m\<bar> + 1) * 2 powi k" by (simp add: a_def)
  have uk: "u \<le> k"
  proof (cases "\<bar>m\<bar> + 1 < 2 ^ 53")
    case True
    have "a < of_int (\<bar>m\<bar> + 1) * 2 powi k" by (simp add: a_def)
    from grid [OF a0 this _ True] show ?thesis by (simp add: u_def)
  next
    case False
    then have m: "\<bar>m\<bar> = 2 ^ 53 - 1" using assms by linarith
    have "a < of_int (2 ^ 52) * 2 powi (k + 1)"
      by (simp add: a_def m power_int_add)
    from grid [OF a0 this] have "u \<le> k + 1" by (simp add: u_def)
    moreover have "u \<noteq> k + 1"
    proof
      assume "u = k + 1"
      then have "exponent a = k + 53" by (simp add: u_def)
      then have "2 powi (k + 53) \<le> a" using exponent_lower [OF a0] by simp
      then show False by (simp add: a_def m power_int_add)
    qed
    ultimately show ?thesis by linarith
  qed
  define j where "j = nat (k - u)"
  have kj: "k = u + int j" using uk by (simp add: j_def)
  have "a / 2 powi u = of_int \<bar>m\<bar> * 2 ^ j"
    by (simp add: a_def kj power_int_add)
  also have "\<dots> = of_int (\<bar>m\<bar> * 2 ^ j)" by simp
  finally have r: "round_even (a / 2 powi u) = \<bar>m\<bar> * 2 ^ j"
    by (simp only: round_even_of_int)
  have "fl x = sgn x * of_int (\<bar>m\<bar> * 2 ^ j) * 2 powi u"
    using x0 by (simp add: fl_def Let_def ax u_def [symmetric] r)
  also have "\<dots> = sgn x * a"
    by (simp add: a_def kj power_int_add)
  also have "\<dots> = x" using ax by (metis mult_sgn_abs)
  finally show ?thesis by (simp add: x_def)
qed

lemma fl_dyadic:
  "\<bar>m\<bar> < 2 ^ 53 \<Longrightarrow> fl (of_int m / 2 ^ j) = of_int m / 2 ^ j"
  using fl_exact [of m "- int j"] by (simp add: power_int_minus field_simps)

lemma fl_int: "\<bar>m\<bar> < 2 ^ 53 \<Longrightarrow> fl (of_int m) = of_int m"
  using fl_exact [of m 0] by simp

lemma fl_nonneg: "0 \<le> x \<Longrightarrow> 0 \<le> fl x"
  by (auto simp: fl_def Let_def intro!: mult_nonneg_nonneg round_even_nonneg)

lemma fl_le:
  assumes "0 \<le> x" "x \<le> of_int M" "0 < M" "M < 2 ^ 53 - 1"
  shows "fl x \<le> of_int M"
proof (cases "x = 0")
  case True
  then show ?thesis using assms(3) by (simp add: fl_def)
next
  case False
  then have x0: "0 < x" using assms(1) by simp
  define u where "u = exponent x - 52"
  have "x < of_int (M + 1) * 2 powi 0" using assms(2) by simp
  from grid [OF x0 this] assms(3,4) have u0: "u \<le> 0" by (simp add: u_def)
  define j where "j = nat (- u)"
  have uj: "u = - int j" using u0 by (simp add: j_def)
  have p: "(2::rat) powi u = inverse (2 ^ j)" by (simp add: uj power_int_minus)
  have "x / 2 powi u \<le> of_int M / 2 powi u"
    using assms(2) by (simp add: divide_right_mono)
  also have "\<dots> = of_int (M * 2 ^ j)" by (simp add: p divide_inverse)
  finally have "round_even (x / 2 powi u) \<le> M * 2 ^ j" by (rule round_even_le)
  then have "of_int (round_even (x / 2 powi u)) \<le> (of_int (M * 2 ^ j) :: rat)"
    by (simp only: of_int_le_iff)
  then have "of_int (round_even (x / 2 powi u)) * 2 powi u \<le> (of_int (M * 2 ^ j) :: rat) * 2 powi u"
    by (simp add: mult_right_mono)
  also have "\<dots> = of_int M" by (simp add: p)
  finally show ?thesis using x0 by (simp add: fl_def Let_def u_def)
qed

lemma round_even_err: "\<bar>of_int (round_even y) - y\<bar> \<le> 1 / 2"
proof -
  have "of_int \<lfloor>y\<rfloor> \<le> y" "y < of_int \<lfloor>y\<rfloor> + 1" by linarith+
  then show ?thesis by (auto simp: round_even_def Let_def)
qed

lemma fl_err: "\<bar>fl x - x\<bar> \<le> \<bar>x\<bar> / 2 ^ 53"
proof (cases "x = 0")
  case True
  then show ?thesis by (simp add: fl_def)
next
  case False
  define a where "a = \<bar>x\<bar>"
  have a0: "0 < a" using False by (simp add: a_def)
  define u where "u = exponent a - 52"
  define m where "m = round_even (a / 2 powi u)"
  have p0: "(0::rat) < 2 powi u" by simp
  have f: "fl x = sgn x * (of_int m * 2 powi u)"
    using False by (simp add: fl_def Let_def a_def u_def m_def)
  have x: "x = sgn x * a" by (simp add: a_def mult_sgn_abs)
  have "fl x - x = sgn x * (of_int m * 2 powi u - a)"
    by (subst (2) x) (simp add: f algebra_simps)
  then have "\<bar>fl x - x\<bar> = \<bar>of_int m * 2 powi u - a\<bar>"
    using False by (simp add: abs_mult abs_sgn_eq)
  also have "of_int m * 2 powi u - a = (of_int m - a / 2 powi u) * 2 powi u"
    by (simp add: field_simps)
  also have "\<bar>\<dots>\<bar> = \<bar>of_int m - a / 2 powi u\<bar> * 2 powi u"
    by (simp add: abs_mult)
  also have "\<dots> \<le> 1 / 2 * 2 powi u"
    using round_even_err [of "a / 2 powi u"] p0 unfolding m_def
    by (intro mult_right_mono) simp_all
  also have "\<dots> = 2 powi exponent a / 2 ^ 53"
    by (simp add: u_def power_int_diff)
  also have "\<dots> \<le> a / 2 ^ 53"
    using exponent_lower [OF a0] by (simp add: divide_right_mono)
  finally show ?thesis by (simp add: a_def)
qed

lemma fl_rel:
  assumes "0 \<le> x"
  shows "x * (1 - 1 / 2 ^ 53) \<le> fl x" "fl x \<le> x * (1 + 1 / 2 ^ 53)"
proof -
  have "\<bar>fl x - x\<bar> \<le> x / 2 ^ 53" using fl_err [of x] assms by simp
  then have "fl x - x \<le> x / 2 ^ 53" "x - fl x \<le> x / 2 ^ 53" by linarith+
  then show "x * (1 - 1 / 2 ^ 53) \<le> fl x" "fl x \<le> x * (1 + 1 / 2 ^ 53)"
    by (simp_all add: right_diff_distrib distrib_left)
qed

lemma fl_nonpos: "x \<le> 0 \<Longrightarrow> fl x \<le> 0"
proof (cases "x = 0")
  case True
  then show ?thesis by (simp add: fl_def)
next
  case False
  assume "x \<le> 0"
  with False have neg: "x < 0" by simp
  have "0 \<le> round_even (\<bar>x\<bar> / 2 powi (exponent \<bar>x\<bar> - 52))"
    by (rule round_even_nonneg) simp
  then have "(0::rat) \<le> of_int (round_even (\<bar>x\<bar> / 2 powi (exponent \<bar>x\<bar> - 52)))
                  * 2 powi (exponent \<bar>x\<bar> - 52)" by simp
  then show ?thesis using neg by (simp add: fl_def Let_def)
qed

lemma fl_step:
  assumes x: "0 \<le> x" and lo: "x * lo \<le> v" and hi: "v \<le> x * hi"
    and l0: "0 \<le> lo" and c: "0 \<le> c"
  shows "x * c * (lo * (1 - 1 / 2 ^ 53)) \<le> fl (v * c)"
    and "fl (v * c) \<le> x * c * (hi * (1 + 1 / 2 ^ 53))"
proof -
  have v0: "0 \<le> v" using x lo l0 by (meson mult_nonneg_nonneg order_trans)
  then have vc: "0 \<le> v * c" using c by simp
  have e1: "(0::rat) \<le> 1 - 1 / 2 ^ 53" by simp
  have e2: "(0::rat) \<le> 1 + 1 / 2 ^ 53" by simp
  have "x * lo * c \<le> v * c" using lo c by (rule mult_right_mono)
  then have "x * lo * c * (1 - 1 / 2 ^ 53) \<le> v * c * (1 - 1 / 2 ^ 53)"
    using e1 by (rule mult_right_mono)
  also have "\<dots> \<le> fl (v * c)" by (rule fl_rel(1) [OF vc])
  finally show "x * c * (lo * (1 - 1 / 2 ^ 53)) \<le> fl (v * c)"
    by (simp add: mult_ac)
  have "v * c \<le> x * hi * c" using hi c by (rule mult_right_mono)
  then have "v * c * (1 + 1 / 2 ^ 53) \<le> x * hi * c * (1 + 1 / 2 ^ 53)"
    using e2 by (rule mult_right_mono)
  with fl_rel(2) [OF vc] have "fl (v * c) \<le> x * hi * c * (1 + 1 / 2 ^ 53)" by linarith
  then show "fl (v * c) \<le> x * c * (hi * (1 + 1 / 2 ^ 53))"
    by (simp add: mult_ac)
qed

text \<open>
  The exponent is the one of the text above, the error of one rounding is at most half the
  spacing, and the result is a multiple of the spacing with a significand of at most 53
  bits.
\<close>

lemma exponent_upper:
  assumes "0 < x"
  shows "x < 2 powi (exponent x + 1)"
proof (cases "1 \<le> x")
  case True
  define n where "n = nat \<lfloor>x\<rfloor>"
  have n1: "0 < n" using True by (simp add: n_def)
  have bp: "0 < bit_length n" using n1 by (subst bit_length.simps) simp
  have e: "exponent x + 1 = int (bit_length n)"
    using True bp by (simp add: exponent_def n_def)
  have "\<lfloor>x\<rfloor> = int n" using True by (simp add: n_def)
  then have "x < of_int (int n) + 1" by linarith
  also have "\<dots> = of_nat (n + 1)" by simp
  also have "\<dots> \<le> of_nat (2 ^ bit_length n)"
    using bit_length_bounds [OF n1] by (simp only: of_nat_le_iff) simp
  finally show ?thesis by (simp add: e)
next
  case False
  define N where "N = nat (\<lceil>1 / x\<rceil> - 1)"
  have y: "1 < 1 / x" using assms False by simp
  then have "(1::rat) < of_int \<lceil>1 / x\<rceil>"
    using le_of_int_ceiling [of "1 / x"] by linarith
  then have "1 < \<lceil>1 / x\<rceil>" by (simp only: of_int_1_less_iff)
  then have c2: "2 \<le> \<lceil>1 / x\<rceil>" by linarith
  then have N1: "0 < N" unfolding N_def by linarith
  have bp: "0 < bit_length N" using N1 by (subst bit_length.simps) simp
  have e: "exponent x + 1 = - int (bit_length N - 1)"
    using False bp by (simp add: exponent_def N_def)
  have "0 \<le> \<lceil>1 / x\<rceil> - 1" using c2 by linarith
  then have NN: "int N = \<lceil>1 / x\<rceil> - 1" unfolding N_def by (rule nat_0_le)
  have "of_int (\<lceil>1 / x\<rceil> - 1) < 1 / x" by linarith
  then have "of_nat N < 1 / x" using NN by (metis of_int_of_nat_eq)
  moreover have "(of_nat (2 ^ (bit_length N - 1)) :: rat) \<le> of_nat N"
    using bit_length_bounds [OF N1] by (simp only: of_nat_le_iff)
  then have "(2::rat) ^ (bit_length N - 1) \<le> of_nat N"
    unfolding of_nat_power of_nat_numeral .
  ultimately have "2 ^ (bit_length N - 1) < 1 / x" by linarith
  then have "x * 2 ^ (bit_length N - 1) < 1"
    using assms by (simp add: field_simps)
  then have "x < inverse (2 ^ (bit_length N - 1))"
    by (simp add: field_simps)
  then show ?thesis by (simp add: e power_int_minus)
qed

lemma fl_err_ulp:
  assumes "x \<noteq> 0"
  shows "\<bar>fl x - x\<bar> \<le> 2 powi (exponent \<bar>x\<bar> - 53)"
proof -
  define a where "a = \<bar>x\<bar>"
  define u where "u = exponent a - 52"
  define m where "m = round_even (a / 2 powi u)"
  have p0: "(0::rat) < 2 powi u" by simp
  have f: "fl x = sgn x * (of_int m * 2 powi u)"
    using assms by (simp add: fl_def Let_def a_def u_def m_def)
  have x: "x = sgn x * a" by (simp add: a_def mult_sgn_abs)
  have "fl x - x = sgn x * (of_int m * 2 powi u - a)"
    by (subst (2) x) (simp add: f algebra_simps)
  then have "\<bar>fl x - x\<bar> = \<bar>of_int m * 2 powi u - a\<bar>"
    using assms by (simp add: abs_mult abs_sgn_eq)
  also have "of_int m * 2 powi u - a = (of_int m - a / 2 powi u) * 2 powi u"
    by (simp add: field_simps)
  also have "\<bar>\<dots>\<bar> = \<bar>of_int m - a / 2 powi u\<bar> * 2 powi u"
    by (simp add: abs_mult)
  also have "\<dots> \<le> 1 / 2 * 2 powi u"
    using round_even_err [of "a / 2 powi u"] p0 unfolding m_def
    by (intro mult_right_mono) simp_all
  also have "\<dots> = 2 powi (exponent a - 53)"
    by (simp add: u_def power_int_diff)
  finally show ?thesis by (simp add: a_def)
qed

lemma fl_err_below:
  assumes "0 < x" "x < 2 powi (e + 1)"
  shows "\<bar>fl x - x\<bar> \<le> 2 powi (e - 53)"
proof -
  have "(2::rat) powi exponent x < 2 powi (e + 1)"
    using exponent_lower [OF assms(1)] assms(2) by linarith
  then have "exponent x < e + 1"
    by (metis not_le power_int_increasing one_le_numeral leD)
  then have "(2::rat) powi (exponent x - 53) \<le> 2 powi (e - 53)"
    by (intro power_int_increasing) simp_all
  moreover have "\<bar>fl x - x\<bar> \<le> 2 powi (exponent \<bar>x\<bar> - 53)"
    using assms(1) by (intro fl_err_ulp) simp
  ultimately show ?thesis using assms(1) by simp
qed

lemma fl_grid:
  assumes "x \<noteq> 0"
  shows "\<exists>m. fl x = of_int m * 2 powi (exponent \<bar>x\<bar> - 52) \<and> \<bar>m\<bar> \<le> 2 ^ 53"
proof -
  define a where "a = \<bar>x\<bar>"
  define u where "u = exponent a - 52"
  define m where "m = round_even (a / 2 powi u)"
  have a0: "0 < a" using assms by (simp add: a_def)
  have "a < 2 powi (exponent a + 1)" by (rule exponent_upper [OF a0])
  also have "\<dots> = 2 ^ 53 * 2 powi u" by (simp add: u_def power_int_add power_int_diff)
  finally have "a / 2 powi u < 2 ^ 53" by (simp add: field_simps)
  then have "a / 2 powi u \<le> of_int (2 ^ 53)" by simp
  then have m1: "m \<le> 2 ^ 53" unfolding m_def by (rule round_even_le)
  have m0: "0 \<le> m" unfolding m_def by (rule round_even_nonneg) (use a0 in simp)
  have "fl x = of_int (if x < 0 then - m else m) * 2 powi u"
    using assms by (simp add: fl_def Let_def a_def u_def m_def sgn_if)
  moreover have "\<bar>if x < 0 then - m else m\<bar> \<le> 2 ^ 53" using m0 m1 by simp
  ultimately show ?thesis unfolding u_def a_def by blast
qed

text \<open>
  Evaluation of \<open>fl\<close> at a numeral: the floor and the ceiling of a quotient of numerals are
  integer divisions.
\<close>

lemma floor_rat_numeral_div:
  "\<lfloor>(numeral a :: rat) / numeral b\<rfloor> = numeral a div numeral b"
  using floor_divide_of_int_eq [of "numeral a" "numeral b", where ?'a = rat] by simp

lemma ceiling_rat_numeral_div:
  "\<lceil>(numeral a :: rat) / numeral b\<rceil> = - ((- numeral a) div numeral b)"
  using floor_divide_of_int_eq [of "- numeral a" "numeral b", where ?'a = rat]
  by (simp add: ceiling_def)

lemmas fl_eval = fl_def exponent_def round_even_def Let_def bit_length.simps
  floor_rat_numeral_div ceiling_rat_numeral_div power_int_minus

lemma fl_dyadic_nat: "n < 2 ^ 53 \<Longrightarrow> fl (of_nat n / 2 ^ j) = of_nat n / 2 ^ j"
  using fl_dyadic [of "int n" j] by simp

lemma fl_nat: "n < 2 ^ 53 \<Longrightarrow> fl (of_nat n) = of_nat n"
  using fl_int [of "int n"] by simp

text \<open>
  The distance and the similarity round two and four times before the last subtraction; the
  relative errors add up to less than \<open>2\<^sup>-\<^sup>5\<^sup>1\<close>.
\<close>

lemma fl_chain2:
  assumes "0 \<le> T"
  shows "\<bar>fl (fl T * 100) - T * 100\<bar> \<le> T * 100 / 2 ^ 51"
proof -
  define e :: rat where "e = 1 / 2 ^ 53"
  have r: "T * (1 - 1 / 2 ^ 53) \<le> fl T" "fl T \<le> T * (1 + 1 / 2 ^ 53)"
    by (rule fl_rel [OF assms])+
  have s: "T * 100 * ((1 - 1 / 2 ^ 53) * (1 - 1 / 2 ^ 53)) \<le> fl (fl T * 100)"
      "fl (fl T * 100) \<le> T * 100 * ((1 + 1 / 2 ^ 53) * (1 + 1 / 2 ^ 53))"
    by (rule fl_step [OF assms r], simp, simp)+
  have T: "0 \<le> T * 100" using assms by simp
  have "T * 100 * (1 - 1 / 2 ^ 51) \<le> T * 100 * ((1 - 1 / 2 ^ 53) * (1 - 1 / 2 ^ 53))"
    by (rule mult_left_mono [OF _ T]) simp
  moreover have "T * 100 * ((1 + 1 / 2 ^ 53) * (1 + 1 / 2 ^ 53)) \<le> T * 100 * (1 + 1 / 2 ^ 51)"
    by (rule mult_left_mono [OF _ T]) simp
  ultimately have "T * 100 * (1 - 1 / 2 ^ 51) \<le> fl (fl T * 100)"
      "fl (fl T * 100) \<le> T * 100 * (1 + 1 / 2 ^ 51)"
    using s by linarith+
  then have "T * 100 - T * 100 / 2 ^ 51 \<le> fl (fl T * 100)"
      "fl (fl T * 100) \<le> T * 100 + T * 100 / 2 ^ 51"
    by (simp_all add: right_diff_distrib distrib_left)
  then show ?thesis by linarith
qed

lemma fl_chain4:
  assumes T: "0 \<le> T" and c: "0 \<le> c"
  defines "q \<equiv> fl (fl (fl (fl T * 100) * c) * 100)"
  shows "T * 100 * c * 100 * (1 - 1 / 2 ^ 51) \<le> q"
    and "q \<le> T * 100 * c * 100 * (1 + 5 / 2 ^ 53)"
proof -
  have r: "T * (1 - 1 / 2 ^ 53) \<le> fl T" "fl T \<le> T * (1 + 1 / 2 ^ 53)"
    by (rule fl_rel [OF T])+
  have s: "T * 100 * ((1 - 1 / 2 ^ 53) * (1 - 1 / 2 ^ 53)) \<le> fl (fl T * 100)"
      "fl (fl T * 100) \<le> T * 100 * ((1 + 1 / 2 ^ 53) * (1 + 1 / 2 ^ 53))"
    by (rule fl_step [OF T r], simp, simp)+
  have T1: "0 \<le> T * 100" using T by simp
  have t: "T * 100 * c * ((1 - 1 / 2 ^ 53) * (1 - 1 / 2 ^ 53) * (1 - 1 / 2 ^ 53))
             \<le> fl (fl (fl T * 100) * c)"
      "fl (fl (fl T * 100) * c)
         \<le> T * 100 * c * ((1 + 1 / 2 ^ 53) * (1 + 1 / 2 ^ 53) * (1 + 1 / 2 ^ 53))"
    by (rule fl_step [OF T1 s _ c], simp)+
  have T2: "0 \<le> T * 100 * c" using T c by simp
  have u: "T * 100 * c * 100
             * ((1 - 1 / 2 ^ 53) * (1 - 1 / 2 ^ 53) * (1 - 1 / 2 ^ 53) * (1 - 1 / 2 ^ 53)) \<le> q"
      "q \<le> T * 100 * c * 100
             * ((1 + 1 / 2 ^ 53) * (1 + 1 / 2 ^ 53) * (1 + 1 / 2 ^ 53) * (1 + 1 / 2 ^ 53))"
    unfolding q_def by (rule fl_step [OF T2 t], simp, simp)+
  have T3: "0 \<le> T * 100 * c * 100" using T c by simp
  have "T * 100 * c * 100 * (1 - 1 / 2 ^ 51)
          \<le> T * 100 * c * 100
             * ((1 - 1 / 2 ^ 53) * (1 - 1 / 2 ^ 53) * (1 - 1 / 2 ^ 53) * (1 - 1 / 2 ^ 53))"
    by (rule mult_left_mono [OF _ T3]) simp
  with u(1) show "T * 100 * c * 100 * (1 - 1 / 2 ^ 51) \<le> q" by linarith
  have "T * 100 * c * 100
             * ((1 + 1 / 2 ^ 53) * (1 + 1 / 2 ^ 53) * (1 + 1 / 2 ^ 53) * (1 + 1 / 2 ^ 53))
          \<le> T * 100 * c * 100 * (1 + 5 / 2 ^ 53)"
    by (rule mult_left_mono [OF _ T3]) simp
  with u(2) show "q \<le> T * 100 * c * 100 * (1 + 5 / 2 ^ 53)" by linarith
qed

section \<open>Properties of the signature engine\<close>

lemma hamming_take:
  "n \<le> length a \<Longrightarrow> length a = length b \<Longrightarrow>
   fold (\<lambda>i d. if a ! i \<noteq> b ! i then d + 1 else d) [0..<n] 0
     = length (filter (\<lambda>(x, y). x \<noteq> y) (zip (take n a) (take n b)))"
proof (induction n)
  case 0
  then show ?case by simp
next
  case (Suc n)
  then have n: "n < length a" "n < length b" by simp_all
  have ta: "take (Suc n) a = take n a @ [a ! n]"
    using n by (simp add: take_Suc_conv_app_nth)
  have tb: "take (Suc n) b = take n b @ [b ! n]"
    using n by (simp add: take_Suc_conv_app_nth)
  have len: "length (take n a) = length (take n b)"
    using n by simp
  show ?case
    using Suc.IH n Suc.prems(2) by (simp add: ta tb zip_append [OF len])
qed

lemma hamming_eq_differing:
  "length a = length b \<Longrightarrow> hamming a b = differing a b"
  using hamming_take [of "length a" a b] by (simp add: hamming_def differing_def)

lemma differing_le_length: "differing a b \<le> length a"
proof -
  have "differing a b \<le> length (zip a b)"
    unfolding differing_def by (rule length_filter_le)
  then show ?thesis by simp
qed

lemma hamming_le_length: "length a = length b \<Longrightarrow> hamming a b \<le> length a"
  using differing_le_length [of a b] by (simp only: hamming_eq_differing)

lemma differing_zero_iff:
  "length a = length b \<Longrightarrow> differing a b = 0 \<longleftrightarrow> a = b"
proof (induction a b rule: list_induct2)
  case Nil
  then show ?case by (simp add: differing_def)
next
  case (Cons x xs y ys)
  then show ?case by (auto simp: differing_def)
qed

lemma calculateHashDistance_eq:
  "length a = length b \<Longrightarrow> a \<noteq> [] \<Longrightarrow>
   calculateHashDistance a b =
     Inr (Fin (fl (fl (of_nat (differing a b) / of_nat (length a)) * 100)))"
  by (auto simp: calculateHashDistance_def hamming_eq_differing)

lemma calculateHashDistance_empty: "calculateHashDistance [] [] = Inr NaN"
  by (simp add: calculateHashDistance_def)

lemma calculateHashDistance_mismatch:
  "length a \<noteq> length b \<Longrightarrow> calculateHashDistance a b = Inl LengthMismatch"
  by (simp add: calculateHashDistance_def)

lemma calculateHashDistance_pow2:
  assumes len: "length a = length b" and L: "length a = 2 ^ k" and k: "k \<le> 46"
  shows "calculateHashDistance a b = Inr (Fin (of_nat (100 * differing a b) / 2 ^ k))"
proof -
  define d where "d = differing a b"
  have ne: "a \<noteq> []" using L by auto
  have "(2::nat) ^ k \<le> 2 ^ 46" using k by (intro power_increasing) simp_all
  then have dk: "d \<le> 2 ^ 46" using differing_le_length [of a b] L by (simp add: d_def)
  have d1: "d < 2 ^ 53" using dk by simp
  have d2: "100 * d < 2 ^ 53" using dk by simp
  have "fl (fl (of_nat d / of_nat (length a)) * 100) = fl (fl (of_nat d / 2 ^ k) * 100)"
    by (simp add: L)
  also have "\<dots> = fl (of_nat d / 2 ^ k * 100)" by (simp only: fl_dyadic_nat [OF d1])
  also have "\<dots> = fl (of_nat (100 * d) / 2 ^ k)" by (simp add: mult.commute)
  also have "\<dots> = of_nat (100 * d) / 2 ^ k" by (rule fl_dyadic_nat [OF d2])
  finally show ?thesis using calculateHashDistance_eq [OF len ne] by (simp only: d_def)
qed

lemma calculateSimilarityPercentage_eq:
  "length a = length b \<Longrightarrow> a \<noteq> [] \<Longrightarrow> length a < 2 ^ 51 \<Longrightarrow>
   calculateSimilarityPercentage a b =
     Inr (Fin (fl (100 - fl (fl (fl (fl (of_nat (differing a b) / of_nat (length a)) * 100)
                                 / (of_nat (length a) * 4)) * 100))))"
proof -
  assume len: "length a = length b" and ne: "a \<noteq> []" and b: "length a < 2 ^ 51"
  have "length a * 4 < 2 ^ 53" using b by simp
  from fl_nat [OF this] have "fl (of_nat (length a) * 4) = of_nat (length a) * 4" by simp
  then show ?thesis
    using ne by (simp add: calculateSimilarityPercentage_def calculateHashDistance_eq [OF len ne] Let_def)
qed

lemma calculateSimilarityPercentage_pow2:
  assumes len: "length a = length b" and L: "length a = 2 ^ k" and k: "k \<le> 22"
  shows "calculateSimilarityPercentage a b =
           Inr (Fin (100 - of_nat (2500 * differing a b) / (2 ^ k * 2 ^ k)))"
proof -
  define d where "d = differing a b"
  define j where "j = 2 * k + 2"
  define X :: rat where "X = of_nat (100 * d) / 2 ^ k"
  define Y :: rat where "Y = 2 ^ k * 4"
  define Z :: rat where "Z = of_nat (100 * d) / 2 ^ j"
  define W :: rat where "W = of_nat (10000 * d) / 2 ^ j"
  have kk: "(2::nat) ^ k \<le> 2 ^ 22" using k by (intro power_increasing) simp_all
  then have dk: "d \<le> 2 ^ 22" using differing_le_length [of a b] L by (simp add: d_def)
  have jj: "(2::int) ^ j \<le> 2 ^ 46" using k by (intro power_increasing) (simp_all add: j_def)
  have k46: "k \<le> 46" using k by simp
  have dist: "calculateHashDistance a b = Inr (Fin X)"
    using calculateHashDistance_pow2 [OF len L k46] by (simp only: d_def X_def)
  have LY: "of_nat (length a) * 4 = Y" by (simp add: Y_def L)
  have Y0: "Y \<noteq> 0" by (simp add: Y_def)
  have "2 ^ k * 4 < (2::nat) ^ 53" using kk by simp
  from fl_nat [OF this] have m: "fl Y = Y" by (simp add: Y_def)
  have d2: "100 * d < 2 ^ 53" using dk by simp
  have d3: "10000 * d < 2 ^ 53" using dk by simp
  have "X / Y = Z"
    by (simp add: X_def Y_def Z_def j_def power_add power_mult power2_eq_square
          mult.commute [of 2 k])
  then have s1: "fl (X / Y) = Z" using fl_dyadic_nat [OF d2, of j] by (simp add: Z_def)
  have "Z * 100 = W" by (simp add: Z_def W_def)
  then have s2: "fl (Z * 100) = W" using fl_dyadic_nat [OF d3, of j] by (simp add: W_def)
  have j0: "(0::int) < 2 ^ j" by simp
  have j1: "(2::int) ^ j \<le> 70368744177664" using jj by simp
  have d4: "int d \<le> 4194304" using dk by simp
  have "\<bar>100 * 2 ^ j - 10000 * int d\<bar> < 9007199254740992" using j0 j1 d4 by linarith
  then have "\<bar>100 * 2 ^ j - 10000 * int d\<bar> < 2 ^ 53" by simp
  from fl_dyadic [OF this, of j]
  have s3: "fl (100 - W) = 100 - W"
    by (simp add: diff_divide_distrib W_def)
  have W: "W = of_nat (2500 * d) / (2 ^ k * 2 ^ k)"
    by (simp add: W_def j_def power_add power_mult power2_eq_square mult.commute [of 2 k])
  have "calculateSimilarityPercentage a b = Inr (Fin (100 - W))"
    by (simp add: calculateSimilarityPercentage_def dist Let_def LY m Y0 s1 s2 s3)
  then show ?thesis by (simp only: W d_def)
qed

lemma distance_7_of_25:
  "calculateHashDistance ''AAAAAAAAAAAAAAAAAAAAAAAAA'' ''BBBBBBBAAAAAAAAAAAAAAAAAA''
     = Inr (Fin (7881299347898369 / 281474976710656))"
proof -
  have d: "differing ''AAAAAAAAAAAAAAAAAAAAAAAAA'' ''BBBBBBBAAAAAAAAAAAAAAAAAA'' = 7"
    by (simp add: differing_def)
  show ?thesis
    by (subst calculateHashDistance_eq) (simp_all add: d fl_eval)
qed

lemma similarity_AAA_BBB:
  "calculateSimilarityPercentage ''AAA'' ''BBB'' = Inr (Fin (- 6450468216285867 / 8796093022208))"
proof -
  have d: "differing ''AAA'' ''BBB'' = 3" by (simp add: differing_def)
  have a: "fl 1 = 1" using fl_int [of 1] by simp
  have b: "fl 100 = 100" using fl_int [of 100] by simp
  show ?thesis
    by (subst calculateSimilarityPercentage_eq) (simp_all add: d a b fl_eval)
qed

text \<open>
  Claim C7. For the signatures \<open>AAAA\<close> and \<open>AAAB\<close>, which differ in one position of four,
  \<^verbatim>\<open>areImagesSimilar\<close> returns true when the configured threshold is 25 and false when it is
  10: the normalised distance is exactly 25.
\<close>

theorem C7_threshold_boundary:
  "calculateHashDistance ''AAAA'' ''AAAB'' = Inr (Fin 25) \<and>
   areImagesSimilar 25 ''AAAA'' ''AAAB'' = Inr True \<and>
   areImagesSimilar 10 ''AAAA'' ''AAAB'' = Inr False"
proof -
  have "calculateHashDistance ''AAAA'' ''AAAB'' = Inr (Fin 25)"
    using calculateHashDistance_pow2 [of "''AAAA''" "''AAAB''" 2] by (simp add: differing_def)
  then show ?thesis by (simp add: areImagesSimilar_def)
qed

text \<open>
  Claim C2, as stated, fails: for two signatures of equal length \<^verbatim>\<open>calculateHashDistance\<close>
  does not return the count of differing positions. \<open>AAAA\<close> and \<open>AAAB\<close> differ in one
  position, and the function returns 25.
\<close>

theorem C2_distance_not_count:
  "length ''AAAA'' = length ''AAAB'' \<and> differing ''AAAA'' ''AAAB'' = 1 \<and>
   calculateHashDistance ''AAAA'' ''AAAB'' = Inr (Fin 25) \<and>
   calculateHashDistance ''AAAA'' ''AAAB'' \<noteq> Inr (Fin (of_nat (differing ''AAAA'' ''AAAB'')))"
  using calculateHashDistance_pow2 [of "''AAAA''" "''AAAB''" 2] by (simp add: differing_def)

text \<open>
  Claim C2, amended. For signatures of equal, non-zero length \<^verbatim>\<open>calculateHashDistance\<close>
  returns the percentage of positions that differ, as its documentation says, computed in
  double arithmetic: the count of differing positions divided by the length and rounded,
  then multiplied by 100 and rounded. The result lies between 0 and 100 and within the
  fraction \<open>2\<^sup>-\<^sup>5\<^sup>1\<close> of the exact percentage; it is the exact percentage when the length
  is a power of two. For signatures of different lengths the function throws and returns no
  value.
\<close>

theorem C2_distance_is_percentage:
  "(length a = length b \<and> a \<noteq> [] \<longrightarrow>
      (\<exists>v. calculateHashDistance a b = Inr (Fin v) \<and>
           v = fl (fl (of_nat (differing a b) / of_nat (length a)) * 100) \<and>
           \<bar>v - 100 * of_nat (differing a b) / of_nat (length a)\<bar>
             \<le> 100 * of_nat (differing a b) / of_nat (length a) / 2 ^ 51 \<and>
           0 \<le> v \<and> v \<le> 100 \<and>
           (length a = 2 ^ k \<and> k \<le> 46 \<longrightarrow>
              v = 100 * of_nat (differing a b) / of_nat (length a)))) \<and>
   (length a \<noteq> length b \<longrightarrow> calculateHashDistance a b = Inl LengthMismatch)"
proof (intro conjI impI)
  assume "length a \<noteq> length b"
  then show "calculateHashDistance a b = Inl LengthMismatch"
    by (rule calculateHashDistance_mismatch)
next
  assume h: "length a = length b \<and> a \<noteq> []"
  then have len: "length a = length b" and ne: "a \<noteq> []" by simp_all
  define T :: rat where "T = of_nat (differing a b) / of_nat (length a)"
  define v where "v = fl (fl T * 100)"
  have T0: "0 \<le> T" by (simp add: T_def)
  have "(of_nat (differing a b) :: rat) \<le> of_nat (length a)"
    using differing_le_length [of a b] by (simp only: of_nat_le_iff)
  then have T1: "T \<le> 1" using ne by (simp add: T_def)
  have val: "calculateHashDistance a b = Inr (Fin v)"
    using calculateHashDistance_eq [OF len ne] by (simp only: v_def T_def)
  have TT: "T * 100 = 100 * of_nat (differing a b) / of_nat (length a)" by (simp add: T_def)
  have err: "\<bar>v - 100 * of_nat (differing a b) / of_nat (length a)\<bar>
               \<le> 100 * of_nat (differing a b) / of_nat (length a) / 2 ^ 51"
    using fl_chain2 [OF T0] by (simp only: TT v_def [symmetric])
  have f0: "0 \<le> fl T" by (rule fl_nonneg [OF T0])
  have f1: "fl T \<le> 1" using fl_le [of T 1] T0 T1 by simp
  have v0: "0 \<le> v" unfolding v_def by (rule fl_nonneg) (use f0 in simp)
  have v1: "v \<le> 100" unfolding v_def using fl_le [of "fl T * 100" 100] f0 f1 by simp
  have ex: "length a = 2 ^ k \<and> k \<le> 46 \<longrightarrow>
              v = 100 * of_nat (differing a b) / of_nat (length a)"
  proof
    assume "length a = 2 ^ k \<and> k \<le> 46"
    then have L: "length a = 2 ^ k" and k: "k \<le> 46" by simp_all
    from calculateHashDistance_pow2 [OF len L k] val
    show "v = 100 * of_nat (differing a b) / of_nat (length a)" by (simp add: L)
  qed
  from val err v0 v1 ex
  show "\<exists>v. calculateHashDistance a b = Inr (Fin v) \<and>
           v = fl (fl (of_nat (differing a b) / of_nat (length a)) * 100) \<and>
           \<bar>v - 100 * of_nat (differing a b) / of_nat (length a)\<bar>
             \<le> 100 * of_nat (differing a b) / of_nat (length a) / 2 ^ 51 \<and>
           0 \<le> v \<and> v \<le> 100 \<and>
           (length a = 2 ^ k \<and> k \<le> 46 \<longrightarrow>
              v = 100 * of_nat (differing a b) / of_nat (length a))"
    unfolding v_def T_def by blast
qed

theorem C2_distance_is_percentage_witness:
  "calculateHashDistance ''AAAA'' ''AAAB'' = Inr (Fin 25) \<and>
   calculateHashDistance ''AAAAAAAAAAAAAAAAAAAAAAAAA'' ''BBBBBBBAAAAAAAAAAAAAAAAAA''
     = Inr (Fin (7881299347898369 / 281474976710656)) \<and>
   \<bar>7881299347898369 / 281474976710656 - 28\<bar> \<le> (28 / 2 ^ 51 :: rat) \<and>
   (7881299347898369 / 281474976710656 :: rat) \<noteq> 28 \<and>
   calculateHashDistance ''AAAA'' ''AAB'' = Inl LengthMismatch"
proof -
  have e: "fl (fl (7 / 25) * 100) = 7881299347898369 / 281474976710656"
    by (simp add: fl_eval)
  have d: "differing ''AAAAAAAAAAAAAAAAAAAAAAAAA'' ''BBBBBBBAAAAAAAAAAAAAAAAAA'' = 7"
    by (simp add: differing_def)
  from C2_distance_is_percentage [of "''AAAA''" "''AAAB''" 2]
  have a: "calculateHashDistance ''AAAA'' ''AAAB'' = Inr (Fin 25)"
    by (auto simp: differing_def)
  from C2_distance_is_percentage
      [of "''AAAAAAAAAAAAAAAAAAAAAAAAA''" "''BBBBBBBAAAAAAAAAAAAAAAAAA''" 0]
  have b: "calculateHashDistance ''AAAAAAAAAAAAAAAAAAAAAAAAA'' ''BBBBBBBAAAAAAAAAAAAAAAAAA''
             = Inr (Fin (7881299347898369 / 281474976710656)) \<and>
           \<bar>7881299347898369 / 281474976710656 - 28\<bar> \<le> (28 / 2 ^ 51 :: rat)"
    by (auto simp: d e)
  from C2_distance_is_percentage [of "''AAAA''" "''AAB''" 0]
  have c: "calculateHashDistance ''AAAA'' ''AAB'' = Inl LengthMismatch" by simp
  from a b c show ?thesis by simp
qed

text \<open>
  Claim C10, as stated, fails. For the signatures \<open>AAA\<close> and \<open>BBB\<close>, of length 3,
  \<^verbatim>\<open>calculateSimilarityPercentage\<close> returns the double \<open>-733.3333333333334\<close>, which is below
  \<open>100 - 2500 / 3\<close>: the quotient \<open>100 / 12\<close> and its product with 100 are rounded.
\<close>

theorem C10_similarity_below_bound:
  "length ''AAA'' = length ''BBB'' \<and> ''AAA'' \<noteq> [] \<and>
   calculateSimilarityPercentage ''AAA'' ''BBB''
     = Inr (Fin (- 6450468216285867 / 8796093022208)) \<and>
   \<not> (100 - 2500 / of_nat (length ''AAA'') \<le> (- 6450468216285867 / 8796093022208 :: rat))"
  by (simp add: similarity_AAA_BBB)

lemma similarity_general:
  assumes len: "length a = length b" and ne: "a \<noteq> []" and bound: "length a \<le> 2 ^ 29"
  shows "\<exists>s. calculateSimilarityPercentage a b = Inr (Fin s) \<and>
             100 - 2500 / of_nat (length a) - 1 / 2 ^ 39 \<le> s \<and> s \<le> 100 \<and>
             (s = 100 \<longleftrightarrow> a = b)"
proof -
  define L :: rat where "L = of_nat (length a)"
  define d :: rat where "d = of_nat (differing a b)"
  define T where "T = d / L"
  define c where "c = 1 / (L * 4)"
  define q where "q = fl (fl (fl (fl T * 100) * c) * 100)"
  define Q where "Q = T * 100 * c * 100"
  define s where "s = fl (100 - q)"
  have L1: "1 \<le> L" using ne by (cases a) (simp_all add: L_def)
  have L0: "0 < L" using L1 by simp
  have "(of_nat (length a) :: rat) \<le> of_nat (2 ^ 29)" using bound by (simp only: of_nat_le_iff)
  then have L29: "L \<le> 2 ^ 29" by (simp add: L_def)
  have d0: "0 \<le> d" by (simp add: d_def)
  have dL: "d \<le> L" unfolding d_def L_def using differing_le_length [of a b] by simp
  have T0: "0 \<le> T" using d0 L0 by (simp add: T_def)
  have c0: "0 \<le> c" using L0 by (simp add: c_def)
  have "length a < 2 ^ 51" using bound by simp
  from calculateSimilarityPercentage_eq [OF len ne this]
  have val: "calculateSimilarityPercentage a b = Inr (Fin s)"
    by (simp add: s_def q_def T_def c_def d_def L_def)
  have Qd: "Q = 2500 * d / (L * L)" using L0 by (simp add: Q_def T_def c_def)
  have Q0: "0 \<le> Q" using d0 L0 by (simp add: Qd)
  have "2500 * d / (L * L) \<le> 2500 * L / (L * L)"
    using dL L0 by (intro divide_right_mono) simp_all
  also have "\<dots> = 2500 / L" using L0 by simp
  finally have QL: "Q \<le> 2500 / L" by (simp add: Qd)
  have "2500 / L \<le> 2500 / 1" using L1 by (intro divide_left_mono) simp_all
  then have B: "2500 / L \<le> 2500" by simp
  have q1: "Q * (1 - 1 / 2 ^ 51) \<le> q" and q2: "q \<le> Q * (1 + 5 / 2 ^ 53)"
    using fl_chain4 [OF T0 c0] by (simp_all only: q_def Q_def)
  have q0: "0 \<le> q"
  proof -
    have "0 \<le> Q * (1 - 1 / 2 ^ 51)" using Q0 by (intro mult_nonneg_nonneg) simp_all
    with q1 show ?thesis by linarith
  qed
  have up: "s \<le> 100"
  proof (cases "q \<le> 100")
    case True
    then show ?thesis unfolding s_def using fl_le [of "100 - q" 100] q0 by simp
  next
    case False
    then have "fl (100 - q) \<le> 0" by (intro fl_nonpos) simp
    then show ?thesis by (simp add: s_def)
  qed
  have e: "\<bar>s - (100 - q)\<bar> \<le> \<bar>100 - q\<bar> / 2 ^ 53"
    unfolding s_def by (rule fl_err)
  have "\<bar>100 - q\<bar> \<le> 100 + q" using q0 by linarith
  then have "\<bar>100 - q\<bar> / 2 ^ 53 \<le> (100 + q) / 2 ^ 53" by (simp add: divide_right_mono)
  with e have e1: "(100 - q) - (100 + q) / 2 ^ 53 \<le> s" by linarith
  have q3: "q \<le> Q + Q * 5 / 9007199254740992" using q2 by (simp add: distrib_left)
  have e2: "(100 - q) - (100 + q) / 9007199254740992 \<le> s" using e1 by simp
  define B where "B = 2500 / L"
  have q5: "q \<le> B + B * 5 / 9007199254740992"
    using q3 QL unfolding B_def [symmetric] by linarith
  have e4: "100 - q - 100 / 9007199254740992 - q / 9007199254740992 \<le> s"
    using e2 by (simp add: add_divide_distrib)
  have "100 - B - 1 / 549755813888 \<le> s"
    using q5 e4 B unfolding B_def [symmetric] by linarith
  then have low: "100 - 2500 / L - 1 / 2 ^ 39 \<le> s" by (simp add: B_def)
  have iff: "s = 100 \<longleftrightarrow> a = b"
  proof
    assume "a = b"
    then have "differing a b = 0" using differing_zero_iff [OF len] by simp
    then have "T = 0" by (simp add: T_def d_def)
    then have "q = 0" by (simp add: q_def fl_def)
    then show "s = 100" using fl_int [of 100] by (simp add: s_def)
  next
    assume s100: "s = 100"
    show "a = b"
    proof (rule ccontr)
      assume "a \<noteq> b"
      then have "differing a b \<noteq> 0" using differing_zero_iff [OF len] by simp
      then have "1 \<le> differing a b" by simp
      then have "(of_nat 1 :: rat) \<le> of_nat (differing a b)" by (simp only: of_nat_le_iff)
      then have d1: "1 \<le> d" by (simp add: d_def)
      have "L * L \<le> 2 ^ 29 * 2 ^ 29" using L29 L0 by (intro mult_mono) simp_all
      then have LL: "L * L \<le> 288230376151711744" by simp
      have "2500 * 1 / 288230376151711744 \<le> 2500 * d / (L * L)"
        using d1 LL L0 by (intro frac_le) simp_all
      then have Qlow: "2500 / 288230376151711744 \<le> Q" by (simp add: Qd)
      have q4: "Q - Q / 2251799813685248 \<le> q" using q1 by (simp add: right_diff_distrib)
      show False
      proof (cases "q < 100")
        case True
        then have x0: "0 < 100 - q" by simp
        have "100 - q < 2 powi (6 + 1)" using q0 by simp
        from fl_err_below [OF x0 this] have "\<bar>s - (100 - q)\<bar> \<le> 2 powi (6 - 53)"
          by (simp only: s_def)
        then have "\<bar>s - (100 - q)\<bar> \<le> 1 / 140737488355328" by (simp add: power_int_minus)
        moreover have "\<bar>s - (100 - q)\<bar> = q" using s100 q0 by simp
        ultimately have "q \<le> 1 / 140737488355328" by simp
        with Qlow q4 show False by linarith
      next
        case False
        then have "fl (100 - q) \<le> 0" by (intro fl_nonpos) simp
        with s100 show False by (simp add: s_def)
      qed
    qed
  qed
  from val low up iff show ?thesis unfolding L_def by blast
qed

text \<open>
  Claim C10, amended. For signatures \<open>a\<close> and \<open>b\<close> of the same non-zero length \<open>L\<close>, up to
  \<open>2\<^sup>2\<^sup>9\<close> characters, \<^verbatim>\<open>calculateSimilarityPercentage\<close> returns a number that is at most
  \<open>100\<close>, is \<open>100\<close> exactly when \<open>a = b\<close>, and is not below \<open>100 - 2500 / L\<close> by more than
  the rounding of the double operations, \<open>2\<^sup>-\<^sup>3\<^sup>9\<close>. When \<open>L\<close> is a power of two up to
  \<open>2\<^sup>2\<^sup>2\<close> no operation rounds: the value is \<open>100 - 2500 * d / L\<^sup>2\<close> for \<open>d\<close> differing
  positions, within \<open>[100 - 2500 / L, 100]\<close>; for 64-character signatures it is never below
  \<open>975 / 16 = 60.9375\<close>, because the distance, already a percentage, is divided by
  \<open>4 * L\<close> again.
\<close>

theorem C10_similarity_up_to_rounding:
  assumes len: "length a = length b" and ne: "a \<noteq> []" and bound: "length a \<le> 2 ^ 29"
  shows "\<exists>s. calculateSimilarityPercentage a b = Inr (Fin s) \<and>
             100 - 2500 / of_nat (length a) - 1 / 2 ^ 39 \<le> s \<and> s \<le> 100 \<and>
             (s = 100 \<longleftrightarrow> a = b) \<and>
             (length a = 2 ^ k \<and> k \<le> 22 \<longrightarrow>
                s = 100 - 2500 * of_nat (differing a b) / (of_nat (length a) * of_nat (length a)) \<and>
                100 - 2500 / of_nat (length a) \<le> s) \<and>
             (length a = 64 \<longrightarrow> 975 / 16 \<le> s)"
proof -
  from similarity_general [OF len ne bound] obtain s where
    val: "calculateSimilarityPercentage a b = Inr (Fin s)"
    and low: "100 - 2500 / of_nat (length a) - 1 / 2 ^ 39 \<le> s"
    and up: "s \<le> 100" and iff: "s = 100 \<longleftrightarrow> a = b" by blast
  define L :: rat where "L = of_nat (length a)"
  define d :: rat where "d = of_nat (differing a b)"
  have L0: "0 < L" using ne by (simp add: L_def)
  have dL: "d \<le> L" unfolding d_def L_def using differing_le_length [of a b] by simp
  have "2500 * d / (L * L) \<le> 2500 * L / (L * L)"
    using dL L0 by (intro divide_right_mono) simp_all
  also have "\<dots> = 2500 / L" using L0 by simp
  finally have QL: "100 - 2500 / L \<le> 100 - 2500 * d / (L * L)" by simp
  have exact: "s = 100 - 2500 * d / (L * L)" if "length a = 2 ^ j" "j \<le> 22" for j
    using calculateSimilarityPercentage_pow2 [OF len that] val that(1)
    by (simp add: L_def d_def)
  have p2: "length a = 2 ^ k \<and> k \<le> 22 \<longrightarrow>
              s = 100 - 2500 * d / (L * L) \<and> 100 - 2500 / L \<le> s"
    using exact [of k] QL by auto
  have p64: "length a = 64 \<longrightarrow> 975 / 16 \<le> s"
  proof
    assume l: "length a = 64"
    then have "length a = 2 ^ 6" by simp
    from exact [OF this] QL have "100 - 2500 / L \<le> s" by simp
    moreover have "L = 64" using l by (simp add: L_def)
    ultimately show "975 / 16 \<le> s" by simp
  qed
  from val low up iff p2 p64 show ?thesis unfolding L_def d_def by blast
qed

theorem C10_similarity_up_to_rounding_witness:
  "length ''0000000000000000000000000000000000000000000000000000000000000000'' = 64 \<and>
   (\<exists>s. calculateSimilarityPercentage
          ''0000000000000000000000000000000000000000000000000000000000000000''
          ''1111111111111111111111111111111111111111111111111111111111111111'' = Inr (Fin s) \<and>
        s = 975 / 16 \<and> s \<le> 100 \<and> s \<noteq> 100) \<and>
   (\<exists>s. calculateSimilarityPercentage ''AAA'' ''BBB'' = Inr (Fin s) \<and>
        100 - 2500 / 3 - 1 / 2 ^ 39 \<le> s \<and> s \<le> 100 \<and> s \<noteq> 100)"
  using C10_similarity_up_to_rounding
    [of "''0000000000000000000000000000000000000000000000000000000000000000''"
        "''1111111111111111111111111111111111111111111111111111111111111111''" 6]
    C10_similarity_up_to_rounding [of "''AAA''" "''BBB''" 0]
  by (auto simp: differing_def)

section \<open>Properties of the image record store\<close>

lemma length_sortBy_addedAt: "length (sortBy_addedAt xs) = length xs"
proof -
  have "length (filter (\<lambda>img. addedAt img \<noteq> None) xs) + length (filter (\<lambda>img. \<not> addedAt img \<noteq> None) xs) = length xs"
    by (rule sum_length_filter_compl)
  then show ?thesis by (simp add: sortBy_addedAt_def)
qed

lemma length_slice_last: "length (slice_last n xs) = (if n = 0 then length xs else min n (length xs))"
  by (auto simp: slice_last_def)

lemma length_evict:
  "length (evict cfg xs) =
     (if maxImagesInMemory cfg = 0 then length xs else min (maxImagesInMemory cfg) (length xs))"
  by (simp add: evict_def length_slice_last length_sortBy_addedAt)

lemma string_of_nat_nonempty: "string_of_nat n \<noteq> []"
  by (subst string_of_nat.simps) simp

lemma digit_inj: "a < 10 \<Longrightarrow> b < 10 \<Longrightarrow> ''0123456789'' ! a = ''0123456789'' ! b \<Longrightarrow> a = (b::nat)"
proof -
  assume a: "a < 10" and b: "b < 10" and e: "''0123456789'' ! a = ''0123456789'' ! b"
  have d: "distinct ''0123456789''" by simp
  from a b have "a < length ''0123456789''" "b < length ''0123456789''" by simp_all
  with d e show "a = b" by (simp add: nth_eq_iff_index_eq)
qed

lemma string_of_nat_inj: "string_of_nat n = string_of_nat m \<Longrightarrow> n = m"
proof (induction n arbitrary: m rule: string_of_nat.induct)
  case (1 n)
  show ?case
  proof (cases "n < 10")
    case True
    then have sn: "string_of_nat n = [''0123456789'' ! n]" by (subst string_of_nat.simps) simp
    show ?thesis
    proof (cases "m < 10")
      case mt: True
      then have "string_of_nat m = [''0123456789'' ! m]" by (subst string_of_nat.simps) simp
      with sn "1.prems" have "''0123456789'' ! n = ''0123456789'' ! m" by simp
      with True mt show ?thesis by (rule digit_inj)
    next
      case False
      then have "string_of_nat m = string_of_nat (m div 10) @ [''0123456789'' ! (m mod 10)]"
        by (subst string_of_nat.simps) simp
      with sn "1.prems" have "string_of_nat (m div 10) = []" by simp
      then show ?thesis by (simp add: string_of_nat_nonempty)
    qed
  next
    case False
    then have sn: "string_of_nat n = string_of_nat (n div 10) @ [''0123456789'' ! (n mod 10)]"
      by (subst string_of_nat.simps) simp
    show ?thesis
    proof (cases "m < 10")
      case True
      then have "string_of_nat m = [''0123456789'' ! m]" by (subst string_of_nat.simps) simp
      with sn "1.prems" have "string_of_nat (n div 10) = []" by simp
      then show ?thesis by (simp add: string_of_nat_nonempty)
    next
      case mf: False
      then have "string_of_nat m = string_of_nat (m div 10) @ [''0123456789'' ! (m mod 10)]"
        by (subst string_of_nat.simps) simp
      with sn "1.prems" have e1: "string_of_nat (n div 10) = string_of_nat (m div 10)"
        and e2: "''0123456789'' ! (n mod 10) = ''0123456789'' ! (m mod 10)" by simp_all
      from "1.IH" [OF False e1] have q: "n div 10 = m div 10" .
      have r: "n mod 10 = m mod 10" by (rule digit_inj [OF _ _ e2]) simp_all
      from q r show ?thesis by (metis div_mult_mod_eq)
    qed
  qed
qed

lemma fileId_sample_image_inj: "fileId (sample_image a) = fileId (sample_image b) \<Longrightarrow> a = b"
  by (auto simp: sample_image_def dest: string_of_nat_inj)

lemma distinct_sample_adds: "distinct (map (\<lambda>a. fileId (snd a)) (sample_adds n))"
  by (auto simp: sample_adds_def distinct_map inj_on_def comp_def dest: fileId_sample_image_inj)


lemma addImage_sqlite_fresh:
  assumes "loaded s" "useSqlite s" "db s = Some rows" "fileId r \<notin> set (map fileId rows)"
  shows "addImage cfg clk s r =
           (Inr True,
            s\<lparr>db := Some (rows @ [sqlite_row clk r]),
              images := evict cfg (images s @ [r\<lparr>addedAt := Some (or_now clk (addedAt r))\<rparr>])\<rparr>)"
  using assms by (simp add: addImage_def addImageToSqlite_def Let_def)

lemma addImage_sqlite_present:
  assumes "loaded s" "useSqlite s" "db s = Some rows" "fileId r \<in> set (map fileId rows)"
  shows "addImage cfg clk s r = (Inr False, s)"
  using assms by (simp add: addImage_def addImageToSqlite_def Let_def)

lemma list_ex_fileId:
  "list_ex (\<lambda>img. fileId img = f) xs \<longleftrightarrow> f \<in> set (map fileId xs)"
  by (auto simp: list_ex_iff)

lemma addImage_json_fresh:
  assumes "loaded s" "\<not> useSqlite s" "fileId r \<notin> set (map fileId (images s))"
  shows "addImage cfg clk s r =
           (Inr True, s\<lparr>images := evict cfg (images s @ [r\<lparr>addedAt := Some (iso clk)\<rparr>])\<rparr>)"
  using assms by (simp add: addImage_def Let_def list_ex_fileId)

lemma addImage_json_present:
  assumes "loaded s" "\<not> useSqlite s" "fileId r \<in> set (map fileId (images s))"
  shows "addImage cfg clk s r = (Inr False, s)"
  using assms by (simp add: addImage_def Let_def list_ex_fileId)

lemma fileId_sqlite_row: "fileId (sqlite_row clk r) = fileId r"
  by (simp add: sqlite_row_def)

lemma evict_below: "length xs \<le> maxImagesInMemory cfg \<Longrightarrow> evict cfg xs = xs"
  by (simp add: evict_def)

text \<open>
  Claim C8, as stated, fails: on a store on which \<^verbatim>\<open>load\<close> was never called,
  \<^verbatim>\<open>getAllImages\<close> and \<^verbatim>\<open>findSimilarImages\<close> return the empty list instead of failing, and
  \<^verbatim>\<open>removeImage\<close> and \<^verbatim>\<open>clear\<close> fail with another error than the not-loaded one.
\<close>

theorem C8_unloaded_reads_succeed:
  "getAllImages new_ImageDatabase = [] \<and>
   findSimilarImages new_ImageDatabase ''AAAA'' (areImagesSimilar 10) = Inr [] \<and>
   findSimilarImages new_ImageDatabase ''AAAA'' (areImagesSimilar 10) \<noteq> Inl NotLoaded \<and>
   fst (removeImage new_ImageDatabase ''virtual_1'') \<noteq> Inl NotLoaded \<and>
   fst (clear new_ImageDatabase) \<noteq> Inl NotLoaded"
  by (simp add: getAllImages_def findSimilarImages_def removeImage_def clear_def
      new_ImageDatabase_def)

text \<open>
  Claim C8, amended. Before \<^verbatim>\<open>load\<close> has been called, \<^verbatim>\<open>addImage\<close> fails with the
  not-loaded error; \<^verbatim>\<open>removeImage\<close> and \<^verbatim>\<open>clear\<close> fail too, with the \<^verbatim>\<open>TypeError\<close> of the
  database handle that is still \<^verbatim>\<open>null\<close>; \<^verbatim>\<open>findSimilarImages\<close> and \<^verbatim>\<open>getAllImages\<close> do not
  fail and return the empty list; and none of the five operations changes the store.
\<close>

theorem C8_before_load:
  "addImage cfg clk new_ImageDatabase imageInfo = (Inl NotLoaded, new_ImageDatabase) \<and>
   findSimilarImages new_ImageDatabase h similarityFunction = Inr [] \<and>
   getAllImages new_ImageDatabase = [] \<and>
   removeImage new_ImageDatabase fid = (Inl NullHandle, new_ImageDatabase) \<and>
   clear new_ImageDatabase = (Inl NullHandle, new_ImageDatabase)"
  by (simp add: addImage_def getAllImages_def findSimilarImages_def removeImage_def clear_def
      new_ImageDatabase_def)

text \<open>
  Claim C4, amended. On a loaded store, \<^verbatim>\<open>addImage\<close> of a record whose \<^verbatim>\<open>fileId\<close> is not
  yet stored returns true. In SQLite mode the table gains exactly one row, and a repeated
  \<^verbatim>\<open>addImage\<close> of the same record returns false and changes nothing. The in-memory list,
  which is the only store in JSON mode, gains one record
  while it holds fewer than \<^verbatim>\<open>maxImagesInMemory\<close> records (or when that limit is 0) and
  otherwise has exactly \<^verbatim>\<open>maxImagesInMemory\<close> records afterwards; in JSON mode below the
  limit, the repeated \<^verbatim>\<open>addImage\<close> returns false and changes nothing.
\<close>

theorem C4_add_fresh_then_repeat:
  assumes ld: "loaded s"
  shows "(useSqlite s \<and> db s = Some rows \<and> fileId r \<notin> set (map fileId rows) \<longrightarrow>
            (\<exists>s' rows'. addImage cfg clk s r = (Inr True, s') \<and>
               db s' = Some rows' \<and> length rows' = length rows + 1 \<and>
               length (images s') =
                  (if length (images s) < maxImagesInMemory cfg \<or> maxImagesInMemory cfg = 0
                   then length (images s) + 1 else maxImagesInMemory cfg) \<and>
               addImage cfg clk' s' r = (Inr False, s'))) \<and>
         (\<not> useSqlite s \<and> fileId r \<notin> set (map fileId (images s)) \<longrightarrow>
            (\<exists>s'. addImage cfg clk s r = (Inr True, s') \<and>
               length (images s') =
                  (if length (images s) < maxImagesInMemory cfg \<or> maxImagesInMemory cfg = 0
                   then length (images s) + 1 else maxImagesInMemory cfg) \<and>
               (length (images s) < maxImagesInMemory cfg \<longrightarrow>
                  addImage cfg clk' s' r = (Inr False, s'))))"
proof (intro conjI impI)
  assume a: "useSqlite s \<and> db s = Some rows \<and> fileId r \<notin> set (map fileId rows)"
  define s' where "s' = s\<lparr>db := Some (rows @ [sqlite_row clk r]),
              images := evict cfg (images s @ [r\<lparr>addedAt := Some (or_now clk (addedAt r))\<rparr>])\<rparr>"
  have 1: "addImage cfg clk s r = (Inr True, s')"
    unfolding s'_def using ld a by (intro addImage_sqlite_fresh) simp_all
  have 2: "db s' = Some (rows @ [sqlite_row clk r])" by (simp add: s'_def)
  have 3: "length (images s') =
                  (if length (images s) < maxImagesInMemory cfg \<or> maxImagesInMemory cfg = 0
                   then length (images s) + 1 else maxImagesInMemory cfg)"
    by (auto simp: s'_def length_evict)
  have 4: "addImage cfg clk' s' r = (Inr False, s')"
    using ld a by (intro addImage_sqlite_present [where rows = "rows @ [sqlite_row clk r]"])
      (simp_all add: s'_def fileId_sqlite_row)
  from 1 2 3 4 show "\<exists>s' rows'. addImage cfg clk s r = (Inr True, s') \<and>
               db s' = Some rows' \<and> length rows' = length rows + 1 \<and>
               length (images s') =
                  (if length (images s) < maxImagesInMemory cfg \<or> maxImagesInMemory cfg = 0
                   then length (images s) + 1 else maxImagesInMemory cfg) \<and>
               addImage cfg clk' s' r = (Inr False, s')"
    by simp
next
  assume a: "\<not> useSqlite s \<and> fileId r \<notin> set (map fileId (images s))"
  define s' where "s' = s\<lparr>images := evict cfg (images s @ [r\<lparr>addedAt := Some (iso clk)\<rparr>])\<rparr>"
  have 1: "addImage cfg clk s r = (Inr True, s')"
    unfolding s'_def using ld a by (intro addImage_json_fresh) simp_all
  have 3: "length (images s') =
                  (if length (images s) < maxImagesInMemory cfg \<or> maxImagesInMemory cfg = 0
                   then length (images s) + 1 else maxImagesInMemory cfg)"
    by (auto simp: s'_def length_evict)
  have 4: "length (images s) < maxImagesInMemory cfg \<longrightarrow> addImage cfg clk' s' r = (Inr False, s')"
  proof
    assume "length (images s) < maxImagesInMemory cfg"
    then have "images s' = images s @ [r\<lparr>addedAt := Some (iso clk)\<rparr>]"
      by (simp add: s'_def evict_below)
    then show "addImage cfg clk' s' r = (Inr False, s')"
      using ld a by (intro addImage_json_present) (simp_all add: s'_def)
  qed
  from 1 3 4 show "\<exists>s'. addImage cfg clk s r = (Inr True, s') \<and>
               length (images s') =
                  (if length (images s) < maxImagesInMemory cfg \<or> maxImagesInMemory cfg = 0
                   then length (images s) + 1 else maxImagesInMemory cfg) \<and>
               (length (images s) < maxImagesInMemory cfg \<longrightarrow>
                  addImage cfg clk' s' r = (Inr False, s'))"
    by simp
qed


lemma empty_sqlite_store_simps:
  "loaded empty_sqlite_store" "useSqlite empty_sqlite_store"
  "db empty_sqlite_store = Some []" "images empty_sqlite_store = []"
  by (simp_all add: empty_sqlite_store_def load_def new_ImageDatabase_def)

lemma empty_json_store_simps:
  "loaded empty_json_store" "\<not> useSqlite empty_json_store" "images empty_json_store = []"
  by (simp_all add: empty_json_store_def load_def loadFromJson_def new_ImageDatabase_def)

lemma full_json_store_simps:
  "loaded full_json_store" "\<not> useSqlite full_json_store"
  "images full_json_store = map stored_image [0..<100]"
  by (simp_all add: full_json_store_def load_def loadFromJson_def new_ImageDatabase_def)

lemma fileId_stored_image: "fileId (stored_image n) = fileId (sample_image n)"
  by (simp add: stored_image_def)

theorem C4_add_fresh_then_repeat_witness:
  "loaded empty_sqlite_store \<and> loaded empty_json_store \<and>
   (\<exists>s' rows'. addImage default_config sample_clock empty_sqlite_store (sample_image 1) = (Inr True, s') \<and>
       db s' = Some rows' \<and> length rows' = 1 \<and> length (images s') = 1 \<and>
       addImage default_config sample_clock s' (sample_image 1) = (Inr False, s')) \<and>
   (\<exists>s'. addImage default_config sample_clock empty_json_store (sample_image 1) = (Inr True, s') \<and>
       length (images s') = 1 \<and>
       addImage default_config sample_clock s' (sample_image 1) = (Inr False, s'))"
  using C4_add_fresh_then_repeat [of empty_sqlite_store "[]" "sample_image 1" default_config
      sample_clock sample_clock]
    C4_add_fresh_then_repeat [of empty_json_store "[]" "sample_image 1" default_config
      sample_clock sample_clock]
  by (simp add: empty_sqlite_store_simps empty_json_store_simps default_config_def)

text \<open>
  Claim C4, as stated, fails: a loaded store in JSON mode that holds 100 records, with
  \<^verbatim>\<open>maxImagesInMemory = 100\<close>, accepts a record with a new \<^verbatim>\<open>fileId\<close> and returns true, and
  holds 100 records afterwards: the count has not increased.
\<close>

theorem C4_count_unchanged_at_cap:
  "loaded full_json_store \<and>
   length (getAllImages full_json_store) = 100 \<and>
   fileId (sample_image 100) \<notin> set (map fileId (getAllImages full_json_store)) \<and>
   fst (addImage default_config sample_clock full_json_store (sample_image 100)) = Inr True \<and>
   length (getAllImages (snd (addImage default_config sample_clock full_json_store (sample_image 100))))
     = 100"
proof -
  have fresh: "fileId (sample_image 100) \<notin> set (map fileId (images full_json_store))"
    by (auto simp: full_json_store_simps fileId_stored_image dest: fileId_sample_image_inj)
  have "addImage default_config sample_clock full_json_store (sample_image 100) =
      (Inr True, full_json_store\<lparr>images := evict default_config
         (images full_json_store @ [(sample_image 100)\<lparr>addedAt := Some (iso sample_clock)\<rparr>])\<rparr>)"
    using fresh by (intro addImage_json_fresh) (simp_all add: full_json_store_simps)
  then show ?thesis
    using fresh
    by (simp add: getAllImages_def length_evict full_json_store_simps default_config_def)
qed

lemma addImages_sqlite:
  assumes "loaded s" "useSqlite s" "db s = Some rows"
    and "distinct (map (\<lambda>a. fileId (snd a)) adds)"
    and "set (map (\<lambda>a. fileId (snd a)) adds) \<inter> set (map fileId rows) = {}"
    and "0 < maxImagesInMemory cfg"
  shows "\<exists>rows'. db (addImages cfg s adds) = Some rows' \<and>
           length rows' = length rows + length adds \<and>
           length (images (addImages cfg s adds)) =
             (if adds = [] then length (images s)
              else min (maxImagesInMemory cfg) (length (images s) + length adds))"
  using assms
proof (induction adds arbitrary: s rows)
  case Nil
  then show ?case by simp
next
  case (Cons a rest)
  obtain clk r where a: "a = (clk, r)" by (cases a)
  define s1 where "s1 = s\<lparr>db := Some (rows @ [sqlite_row clk r]),
              images := evict cfg (images s @ [r\<lparr>addedAt := Some (or_now clk (addedAt r))\<rparr>])\<rparr>"
  have fresh: "fileId r \<notin> set (map fileId rows)"
    using Cons.prems(5) a by auto
  have step: "addImage cfg clk s r = (Inr True, s1)"
    unfolding s1_def using Cons.prems(1-3) fresh by (rule addImage_sqlite_fresh)
  have s1: "loaded s1" "useSqlite s1" "db s1 = Some (rows @ [sqlite_row clk r])"
    using Cons.prems(1,2) by (simp_all add: s1_def)
  have d: "distinct (map (\<lambda>a. fileId (snd a)) rest)"
    using Cons.prems(4) by simp
  have disj: "set (map (\<lambda>a. fileId (snd a)) rest) \<inter> set (map fileId (rows @ [sqlite_row clk r])) = {}"
    using Cons.prems(4,5) a by (auto simp: fileId_sqlite_row)
  from Cons.IH [OF s1 d disj Cons.prems(6)]
  obtain rows' where r: "db (addImages cfg s1 rest) = Some rows'"
    "length rows' = length (rows @ [sqlite_row clk r]) + length rest"
    "length (images (addImages cfg s1 rest)) =
       (if rest = [] then length (images s1)
        else min (maxImagesInMemory cfg) (length (images s1) + length rest))"
    by blast
  have l1: "length (images s1) = min (maxImagesInMemory cfg) (length (images s) + 1)"
    using Cons.prems(6) by (simp add: s1_def length_evict)
  have e: "addImages cfg s (a # rest) = addImages cfg s1 rest"
    by (simp add: a step)
  show ?case
    unfolding e using r l1 by (auto simp: min_def)
qed

text \<open>
  Claim C1 at a concrete run: 101 records with distinct \<^verbatim>\<open>fileId\<close>s are added to a loaded,
  empty SQLite store with \<^verbatim>\<open>maxImagesInMemory = 100\<close>. The in-memory list then holds exactly
  100 records and the SQLite table all 101, as the claim says, but \<^verbatim>\<open>getAllImages\<close> returns
  the in-memory list: 100 records, not 101.
\<close>

theorem C1_getAll_returns_working_set:
  "length (images (addImages default_config empty_sqlite_store (sample_adds 101))) = 100 \<and>
   length (getAllImages (addImages default_config empty_sqlite_store (sample_adds 101))) = 100 \<and>
   map_option length (db (addImages default_config empty_sqlite_store (sample_adds 101))) = Some 101"
proof -
  have n: "length (sample_adds 101) = 101" "sample_adds 101 \<noteq> []"
    by (simp_all add: sample_adds_def)
  have "\<exists>rows'. db (addImages default_config empty_sqlite_store (sample_adds 101)) = Some rows' \<and>
           length rows' = length ([]::image list) + length (sample_adds 101) \<and>
           length (images (addImages default_config empty_sqlite_store (sample_adds 101))) =
             (if sample_adds 101 = [] then length (images empty_sqlite_store)
              else min (maxImagesInMemory default_config)
                     (length (images empty_sqlite_store) + length (sample_adds 101)))"
    by (rule addImages_sqlite)
      (simp_all add: empty_sqlite_store_simps distinct_sample_adds default_config_def)
  then show ?thesis
    using n by (auto simp: getAllImages_def empty_sqlite_store_simps default_config_def)
qed

section \<open>Properties of the message links\<close>

text \<open>
  Claim C9. For the chat identity \<open>-1001234567890\<close> and message 55 the link ends in
  \<open>/c/1234567890/55\<close> (the prefix \<open>-100\<close> is dropped), and for the chat identity or user
  name \<open>mychannel\<close> and message 10 it ends in \<open>/mychannel/10\<close>. This holds for
  \<^verbatim>\<open>_createMessageLink\<close> of the scanner and for \<^verbatim>\<open>createMessageLink\<close> of the analyzer.
\<close>

theorem C9_link_derivation:
  "private_createMessageLink ''-1001234567890'' 55 = ''https://t.me/c/1234567890/55'' \<and>
   suffix ''/c/1234567890/55'' (private_createMessageLink ''-1001234567890'' 55) \<and>
   private_createMessageLink ''mychannel'' 10 = ''https://t.me/mychannel/10'' \<and>
   suffix ''/mychannel/10'' (private_createMessageLink ''mychannel'' 10) \<and>
   suffix ''/c/1234567890/55''
     (createMessageLink ((sample_image 55)\<lparr>chatId := ''-1001234567890''\<rparr>)) \<and>
   suffix ''/mychannel/10''
     (createMessageLink ((sample_image 10)\<lparr>chatId := ''mychannel''\<rparr>)) \<and>
   suffix ''/mychannel/10''
     (createMessageLink ((sample_image 10)\<lparr>chatId := ''mychannel'',
        channelUsername := Some ''mychannel''\<rparr>))"
  by (simp add: private_createMessageLink_def createMessageLink_def all_digits_def
      strip_prefix_def string_of_int_def string_of_nat.simps sample_image_def suffix_to_prefix)

section \<open>Properties of the grouping\<close>

lemma group_inner_inv:
  "group_inner t i cur cands (grp, P) = Inr (grp', P') \<Longrightarrow>
   \<exists>new. grp' = grp @ new \<and> distinct (map messageId new) \<and>
         messageId ` set new \<inter> P = {} \<and> P' = P \<union> messageId ` set new \<and>
         set new \<subseteq> snd ` set cands"
proof (induction cands arbitrary: grp P)
  case Nil
  then show ?case by simp
next
  case (Cons c cands)
  obtain j cmp where c: "c = (j, cmp)" by (cases c)
  show ?case
  proof (cases "i = j \<or> messageId cmp \<in> P")
    case True
    then have "group_inner t i cur cands (grp, P) = Inr (grp', P')"
      using Cons.prems c by (auto split: if_splits)
    from Cons.IH [OF this] show ?thesis by auto
  next
    case False
    then obtain sim where sim: "calculateSimilarityPercentage (hash cur) (hash cmp) = Inr sim"
      using Cons.prems c by (auto split: sum.splits)
    show ?thesis
    proof (cases "js_ge sim (Fin t)")
      case ge: True
      then have "group_inner t i cur cands (grp @ [cmp], insert (messageId cmp) P) = Inr (grp', P')"
        using Cons.prems c False sim by simp
      from Cons.IH [OF this] obtain new where
        n: "grp' = (grp @ [cmp]) @ new" "distinct (map messageId new)"
           "messageId ` set new \<inter> insert (messageId cmp) P = {}"
           "P' = insert (messageId cmp) P \<union> messageId ` set new"
           "set new \<subseteq> snd ` set cands"
        by blast
      have "grp' = grp @ (cmp # new)" using n(1) by simp
      moreover have "distinct (map messageId (cmp # new))" using n(2,3) by auto
      moreover have "messageId ` set (cmp # new) \<inter> P = {}" using n(3) False by auto
      moreover have "P' = P \<union> messageId ` set (cmp # new)" using n(4) by auto
      moreover have "set (cmp # new) \<subseteq> snd ` set (c # cands)" using n(5) c by auto
      ultimately show ?thesis by blast
    next
      case lt: False
      then have "group_inner t i cur cands (grp, P) = Inr (grp', P')"
        using Cons.prems c False sim by simp
      from Cons.IH [OF this] show ?thesis by auto
    qed
  qed
qed

lemma group_outer_inv:
  "group_outer t allImgs todo (groups, P) = Inr (groups', P') \<Longrightarrow>
   distinct (map messageId (concat groups)) \<Longrightarrow>
   messageId ` set (concat groups) \<subseteq> P \<Longrightarrow>
   \<forall>g \<in> set groups. 2 \<le> length g \<Longrightarrow>
   set (concat groups) \<subseteq> snd ` (set allImgs \<union> set todo) \<Longrightarrow>
   set todo \<subseteq> set allImgs \<Longrightarrow>
   distinct (map messageId (concat groups')) \<and>
   (\<forall>g \<in> set groups'. 2 \<le> length g) \<and>
   set (concat groups') \<subseteq> snd ` set allImgs"
proof (induction todo arbitrary: groups P)
  case Nil
  then show ?case by auto
next
  case (Cons c todo)
  obtain i cur where c: "c = (i, cur)" by (cases c)
  have sub: "set todo \<subseteq> set allImgs" and cin: "(i, cur) \<in> set allImgs"
    using Cons.prems(6) c by auto
  have src: "set (concat groups) \<subseteq> snd ` set allImgs"
    using Cons.prems(5,6) by auto
  show ?case
  proof (cases "messageId cur \<in> P")
    case True
    then have "group_outer t allImgs todo (groups, P) = Inr (groups', P')"
      using Cons.prems(1) c by simp
    from Cons.IH [OF this Cons.prems(2,3,4) _ sub] src show ?thesis by auto
  next
    case False
    then obtain grp P1 where
      inner: "group_inner t i cur allImgs ([cur], insert (messageId cur) P) = Inr (grp, P1)"
      and rest: "group_outer t allImgs todo
                   (if length grp > 1 then groups @ [grp] else groups, P1) = Inr (groups', P')"
      using Cons.prems(1) c by (auto split: sum.splits prod.splits)
    from group_inner_inv [OF inner] obtain new where
      n: "grp = [cur] @ new" "distinct (map messageId new)"
         "messageId ` set new \<inter> insert (messageId cur) P = {}"
         "P1 = insert (messageId cur) P \<union> messageId ` set new"
         "set new \<subseteq> snd ` set allImgs"
      by blast
    define groups1 where "groups1 = (if length grp > 1 then groups @ [grp] else groups)"
    have ids: "messageId ` set (cur # new) \<inter> P = {}"
      using n(3) False by auto
    have dn: "distinct (map messageId (cur # new))"
      using n(2,3) by auto
    have "messageId ` set (concat groups) \<inter> messageId ` set (cur # new) = {}"
      using Cons.prems(3) ids by blast
    then have dd: "distinct (map messageId (concat groups @ cur # new))"
      using Cons.prems(2) dn by (simp only: map_append distinct_append set_map simp_thms)
    have d1: "distinct (map messageId (concat groups1))"
    proof (cases "length grp > 1")
      case True
      then have "concat groups1 = concat groups @ cur # new"
        by (simp add: groups1_def n(1))
      with dd show ?thesis by (simp only:)
    next
      case False
      then have "groups1 = groups" by (simp add: groups1_def)
      with Cons.prems(2) show ?thesis by (simp only:)
    qed
    have p1: "messageId ` set (concat groups1) \<subseteq> P1"
      using Cons.prems(3) n by (auto simp: groups1_def)
    have l1: "\<forall>g \<in> set groups1. 2 \<le> length g"
      using Cons.prems(4) by (auto simp: groups1_def)
    have curin: "cur \<in> snd ` set allImgs"
      using cin by (metis image_eqI snd_conv)
    have gin: "set grp \<subseteq> snd ` set allImgs"
      using n(1,5) curin by auto
    have "set (concat groups1) \<subseteq> snd ` set allImgs"
      using src gin by (simp add: groups1_def)
    then have s1: "set (concat groups1) \<subseteq> snd ` (set allImgs \<union> set todo)"
      by (simp only: image_Un) blast
    from Cons.IH [OF rest [folded groups1_def] d1 p1 l1 s1 sub] show ?thesis .
  qed
qed

text \<open>
  \<^verbatim>\<open>groupSimilarImages\<close> keeps the partition property: whenever it returns, no record and no
  \<^verbatim>\<open>messageId\<close> occurs twice in the groups taken together, every group has at least two
  members, and every member is one of the given records.
\<close>

lemma groupSimilarImages_partition:
  assumes "groupSimilarImages imgs threshold = Inr groups"
  shows "distinct (concat groups) \<and> distinct (map messageId (concat groups)) \<and>
         (\<forall>g \<in> set groups. 2 \<le> length g) \<and> set (concat groups) \<subseteq> set imgs"
proof -
  from assms obtain P where
    "group_outer threshold (enumerate 0 imgs) (enumerate 0 imgs) ([], {}) = Inr (groups, P)"
    by (auto simp: groupSimilarImages_def split: sum.splits prod.splits)
  from group_outer_inv [OF this]
  have r: "distinct (map messageId (concat groups))" "\<forall>g \<in> set groups. 2 \<le> length g"
    "set (concat groups) \<subseteq> snd ` set (enumerate 0 imgs)"
    by simp_all
  have "snd ` set (enumerate 0 imgs) = set imgs"
    by (metis list.set_map map_snd_enumerate)
  with r show ?thesis by (simp add: distinct_map)
qed


lemma sim16:
  "calculateSimilarityPercentage ''0000000000000000'' ''0000000000000001'' = Inr (Fin (23100 / 256))"
  "calculateSimilarityPercentage ''0000000000000000'' ''0000000000000011'' = Inr (Fin (20600 / 256))"
  by (simp_all add: calculateSimilarityPercentage_pow2 [where k = 4] differing_def)

lemma groupSimilarImages_partition_example:
  "groupSimilarImages
     [hashed_image 1 ''0000000000000000'', hashed_image 2 ''0000000000000011'',
      hashed_image 3 ''0000000000000001''] 90
   = Inr [[hashed_image 1 ''0000000000000000'', hashed_image 3 ''0000000000000001'']] \<and>
   distinct (concat [[hashed_image 1 ''0000000000000000'', hashed_image 3 ''0000000000000001'']]) \<and>
   (\<forall>g \<in> set [[hashed_image 1 ''0000000000000000'', hashed_image 3 ''0000000000000001'']].
      2 \<le> length g)"
proof -
  have e: "groupSimilarImages
     [hashed_image 1 ''0000000000000000'', hashed_image 2 ''0000000000000011'',
      hashed_image 3 ''0000000000000001''] 90
   = Inr [[hashed_image 1 ''0000000000000000'', hashed_image 3 ''0000000000000001'']]"
    by (simp add: groupSimilarImages_def enumerate_eq_zip upt_rec hashed_image_def
        sample_image_def sim16)
  from groupSimilarImages_partition [OF e] e show ?thesis by simp
qed

lemma dist16:
  "areImagesSimilar 10 ''0000000000000000'' ''0000000000000000'' = Inr True"
  "areImagesSimilar 10 ''0000000000000000'' ''0000000000000011'' = Inr False"
  "areImagesSimilar 10 ''0000000000000000'' ''0000000000000001'' = Inr True"
  "areImagesSimilar 10 ''0000000000000011'' ''0000000000000000'' = Inr False"
  "areImagesSimilar 10 ''0000000000000011'' ''0000000000000011'' = Inr True"
  "areImagesSimilar 10 ''0000000000000011'' ''0000000000000001'' = Inr True"
  by (simp_all add: areImagesSimilar_def calculateHashDistance_pow2 [where k = 4] differing_def)

text \<open>
  Claim C6 at a concrete input of \<^verbatim>\<open>findSimilarGroups\<close>, the grouping of the report builder.
  The store holds three records, in this order: 1 with signature \<open>0000000000000000\<close>, 2 with
  \<open>0000000000000011\<close> and 3 with \<open>0000000000000001\<close>; the threshold is the configured 10.
  Record 3 is within the threshold of both others, which are not within it of each other.
  The result has two groups and record 3 is a member of both.
\<close>

theorem C6_findSimilarGroups_overlap:
  "findSimilarGroups default_config three_image_store =
     Inr [(hashed_image 1 ''0000000000000000'', [hashed_image 3 ''0000000000000001'']),
          (hashed_image 2 ''0000000000000011'', [hashed_image 3 ''0000000000000001''])]"
  by (simp add: findSimilarGroups_def getAllImages_def findSimilarImages_def
      three_image_store_def load_def new_ImageDatabase_def default_config_def
      hashed_image_def sample_image_def dist16 string_of_nat.simps)

section \<open>Properties of the scan orchestrator\<close>





lemma photo_message_fields:
  "message_id (photo_message n d p) = n" "message_date (photo_message n d p) = d"
  by (simp_all add: photo_message_def)










text \<open>
  Claim C5. On a scanner whose \<^verbatim>\<open>isScanning\<close> flag is set, \<^verbatim>\<open>scanChannel\<close> and
  \<^verbatim>\<open>scanEntireChannelWithoutDownload\<close> return the busy result (no exception, no counters),
  and leave the scanner, with its flag and its set of processed messages, and the store
  as they were. The counters of a scan are local to its own call and are created after
  this guard, so the rejected call creates and changes none.
\<close>

theorem C5_busy_scan_rejected:
  assumes "isScanning sc"
  shows "scanChannel cfg tg sc store channelIdArg limit methodArg = (Busy, sc, store) \<and>
         scanEntireChannelWithoutDownload cfg tg fuel sc store channelIdArg batchSize
           = Some (Busy, sc, store)"
  using assms by (simp add: scanChannel_def scanEntireChannelWithoutDownload_def)

theorem C5_busy_scan_rejected_witness:
  "isScanning busy_scanner \<and>
   scanChannel default_config sample_telegram busy_scanner empty_sqlite_store
     ''-1001234567890'' 100 ''auto'' = (Busy, busy_scanner, empty_sqlite_store) \<and>
   scanEntireChannelWithoutDownload default_config sample_telegram 0 busy_scanner
     empty_sqlite_store ''-1001234567890'' 100 = Some (Busy, busy_scanner, empty_sqlite_store)"
proof -
  have b: "isScanning busy_scanner" by (simp add: busy_scanner_def)
  from C5_busy_scan_rejected [OF b] b show ?thesis by simp
qed


lemma sample_method: "determineOptimalMethod sample_telegram = ''gramjs''"
  by (simp add: determineOptimalMethod_def sample_telegram_def)

lemma sample_history: "history sample_telegram m p l = sample_messages"
  by (simp add: sample_telegram_def)

lemma scan_hasPhoto_sample: "scan_hasPhoto ''gramjs'' (photo_message n d p)"
  by (simp add: scan_hasPhoto_def photo_message_def)

lemma sample_fetch:
  "fetchPhoto sample_telegram m (photo_message n d p)
     = Inr (''photo_'' @ string_of_int n, ''0000000000000000'')"
  by (simp add: sample_telegram_def photo_message_fields)

text \<open>
  The scan with download on a store that was never loaded: every \<^verbatim>\<open>addImage\<close> promise is
  rejected, nothing is stored, and the unhandled rejection ends the process.
\<close>

lemma unloaded_step:
  assumes "n \<notin> ids"
  shows "scan_message cfg sample_telegram ''gramjs'' (photo_message n d p)
     (r, \<lparr>ds_scanner = \<lparr>isScanning = False, processedMessageIds = ids\<rparr>,
          ds_store = new_ImageDatabase, ds_pending = [], ds_rejected = 0, ds_tick = t\<rparr>)
   = (r\<lparr>processedImages := processedImages r + 1\<rparr>,
      \<lparr>ds_scanner = \<lparr>isScanning = False, processedMessageIds = insert n ids\<rparr>,
       ds_store = new_ImageDatabase, ds_pending = [], ds_rejected = 1, ds_tick = t + 1\<rparr>)"
proof -
  have l: "land cfg sample_telegram
      \<lparr>ds_scanner = \<lparr>isScanning = False, processedMessageIds = ids\<rparr>,
       ds_store = new_ImageDatabase, ds_pending = [], ds_rejected = 0, ds_tick = t\<rparr>
    = \<lparr>ds_scanner = \<lparr>isScanning = False, processedMessageIds = ids\<rparr>,
       ds_store = new_ImageDatabase, ds_pending = [], ds_rejected = 0, ds_tick = t + 1\<rparr>"
    by (simp add: land_def)
  have f: "findSimilarImages new_ImageDatabase h sim = Inr []" for h sim
    by (simp add: findSimilarImages_def new_ImageDatabase_def)
  have s: "start_addImage cfg clk img
      \<lparr>ds_scanner = sc, ds_store = new_ImageDatabase, ds_pending = [], ds_rejected = 0,
       ds_tick = tt\<rparr>
    = \<lparr>ds_scanner = sc, ds_store = new_ImageDatabase, ds_pending = [], ds_rejected = 1,
       ds_tick = tt\<rparr>" for clk img sc tt
    by (simp add: start_addImage_def new_ImageDatabase_def)
  have p: "processPhoto cfg sample_telegram ''gramjs'' (photo_message n d p)
      \<lparr>ds_scanner = \<lparr>isScanning = False, processedMessageIds = ids\<rparr>,
       ds_store = new_ImageDatabase, ds_pending = [], ds_rejected = 0, ds_tick = t\<rparr>
    = (Processed
         \<lparr>fileId = ''photo_'' @ string_of_int n, hash = ''0000000000000000'', messageId = n,
          chatId = ''-1001234567890'', channelUsername = None, timestamp = d,
          source = ''channel_scan_gramjs'', addedAt = None, messageLink = None\<rparr> [],
       \<lparr>ds_scanner = \<lparr>isScanning = False, processedMessageIds = insert n ids\<rparr>,
        ds_store = new_ImageDatabase, ds_pending = [], ds_rejected = 1, ds_tick = t + 1\<rparr>)"
  proof -
    have c: "message_chat (photo_message n d p) = ''-1001234567890''"
      by (simp add: photo_message_def)
    show ?thesis
      unfolding processPhoto_def
      using assms by (simp add: photo_message_fields c l sample_fetch f s Let_def)
  qed
  show ?thesis
    by (simp add: scan_message_def scan_hasPhoto_sample p)
qed

lemma ended_step:
  "0 < ds_rejected rest \<Longrightarrow> rejectionEndsProcess tg \<Longrightarrow>
   scan_message cfg tg actualMethod message (r, rest) = (r, rest)"
  by (simp add: scan_message_def)

lemma scanChannel_unloaded:
  "scanChannel default_config sample_telegram idle_scanner new_ImageDatabase
     ''-1001234567890'' 100 ''auto''
   = (ProcessEnded, \<lparr>isScanning = True, processedMessageIds = {3}\<rparr>, new_ImageDatabase)"
proof -
  have r: "rejectionEndsProcess sample_telegram" by (simp add: sample_telegram_def)
  show ?thesis
    by (simp add: scanChannel_def sample_method sample_history sample_messages_def
        idle_scanner_def unloaded_step ended_step r)
qed

text \<open>
  The scan with download when no insertion completes before the next photo is compared:
  the three photos of the sample channel have the same hash, and none is found similar to
  another; the store that the scan returns is still empty.
\<close>

lemma slow_fetch:
  "fetchPhoto slow_telegram m (photo_message n d p)
     = Inr (''photo_'' @ string_of_int n, ''0000000000000000'')"
  by (simp add: slow_telegram_def sample_fetch)

lemma pending_step:
  assumes "n \<notin> ids"
  shows "scan_message cfg slow_telegram ''gramjs''
     (photo_message n d p)
     (r, \<lparr>ds_scanner = \<lparr>isScanning = False, processedMessageIds = ids\<rparr>,
          ds_store = empty_sqlite_store, ds_pending = ps, ds_rejected = 0, ds_tick = t\<rparr>)
   = (r\<lparr>processedImages := processedImages r + 1\<rparr>,
      \<lparr>ds_scanner = \<lparr>isScanning = False, processedMessageIds = insert n ids\<rparr>,
       ds_store = empty_sqlite_store,
       ds_pending = ps @ [(sample_clock,
          \<lparr>fileId = ''photo_'' @ string_of_int n, hash = ''0000000000000000'', messageId = n,
           chatId = ''-1001234567890'', channelUsername = None, timestamp = d,
           source = ''channel_scan_gramjs'', addedAt = None, messageLink = None\<rparr>)],
       ds_rejected = 0, ds_tick = t + 1\<rparr>)"
proof -
  have l: "land cfg slow_telegram
      \<lparr>ds_scanner = sc, ds_store = empty_sqlite_store, ds_pending = ps, ds_rejected = 0,
       ds_tick = t\<rparr>
    = \<lparr>ds_scanner = sc, ds_store = empty_sqlite_store, ds_pending = ps, ds_rejected = 0,
       ds_tick = Suc t\<rparr>" for sc
    by (simp add: land_def slow_telegram_def)
  have f: "findSimilarImages empty_sqlite_store h sim = Inr []" for h sim
    by (simp add: findSimilarImages_def empty_sqlite_store_simps)
  have s: "start_addImage cfg clk img
      \<lparr>ds_scanner = sc, ds_store = empty_sqlite_store, ds_pending = ps, ds_rejected = 0,
       ds_tick = tt\<rparr>
    = \<lparr>ds_scanner = sc, ds_store = empty_sqlite_store, ds_pending = ps @ [(clk, img)],
       ds_rejected = 0, ds_tick = tt\<rparr>" for clk img sc tt
    by (simp add: start_addImage_def empty_sqlite_store_simps)
  have c: "message_chat (photo_message n d p) = ''-1001234567890''"
    by (simp add: photo_message_def)
  have k: "clockAt slow_telegram tt = sample_clock" for tt
    by (simp add: slow_telegram_def sample_telegram_def)
  have p: "processPhoto cfg slow_telegram ''gramjs''
      (photo_message n d p)
      \<lparr>ds_scanner = \<lparr>isScanning = False, processedMessageIds = ids\<rparr>,
       ds_store = empty_sqlite_store, ds_pending = ps, ds_rejected = 0, ds_tick = t\<rparr>
    = (Processed
         \<lparr>fileId = ''photo_'' @ string_of_int n, hash = ''0000000000000000'', messageId = n,
          chatId = ''-1001234567890'', channelUsername = None, timestamp = d,
          source = ''channel_scan_gramjs'', addedAt = None, messageLink = None\<rparr> [],
       \<lparr>ds_scanner = \<lparr>isScanning = False, processedMessageIds = insert n ids\<rparr>,
        ds_store = empty_sqlite_store,
        ds_pending = ps @ [(sample_clock,
          \<lparr>fileId = ''photo_'' @ string_of_int n, hash = ''0000000000000000'', messageId = n,
           chatId = ''-1001234567890'', channelUsername = None, timestamp = d,
           source = ''channel_scan_gramjs'', addedAt = None, messageLink = None\<rparr>)],
        ds_rejected = 0, ds_tick = t + 1\<rparr>)"
    unfolding processPhoto_def
    using assms by (simp add: photo_message_fields c l slow_fetch f s k Let_def)
  show ?thesis
    by (simp add: scan_message_def scan_hasPhoto_sample p)
qed

lemma scanChannel_pending:
  "scanChannel default_config slow_telegram idle_scanner
     empty_sqlite_store ''-1001234567890'' 100 ''auto''
   = (Completed \<lparr>totalMessages = 3, processedImages = 3, similarImagesFound = 0,
                 duplicateGroups = [], errors = 0, scan_method = ''gramjs''\<rparr>,
      \<lparr>isScanning = False, processedMessageIds = {1, 2, 3}\<rparr>, empty_sqlite_store)"
proof -
  have m: "determineOptimalMethod slow_telegram = ''gramjs''"
    by (simp add: determineOptimalMethod_def slow_telegram_def sample_telegram_def)
  have h: "history slow_telegram a b c = sample_messages"
    for a b c by (simp add: slow_telegram_def sample_telegram_def)
  show ?thesis
    by (simp add: scanChannel_def m h sample_messages_def idle_scanner_def pending_step
        new_results_def insert_commute)
qed
















end
